theory Spec2Isabelle
  imports Main
begin

section \<open>Python strings\<close>

text \<open>
  A Python \<open>str\<close> is a sequence of Unicode code points; a code point is modelled as
  a natural number, so that the Czech letters of the labels and of the sample nutrient
  string are single elements, as they are for \<open>re\<close> and \<open>str.strip\<close>.
\<close>

type_synonym str = "nat list"

text \<open>
  An ASCII literal is written \<open>ascii ''...''\<close>; the other letters of the program's
  literals are given by their code points: 225 (U+00E1, a acute), 233 (U+00E9, e acute),
  237 (U+00ED, i acute), 367 (U+016F, u ring), 381 and 382 (U+017D and U+017E, capital
  and small z caron).
\<close>

definition ascii :: "string \<Rightarrow> str" where
  "ascii s = map of_char s"

text \<open>
  \<open>str.strip()\<close> without argument removes leading and trailing white space; the
  white-space code points are those of CPython's \<open>Py_UNICODE_ISSPACE\<close>.
\<close>

definition isspace :: "nat \<Rightarrow> bool" where
  "isspace c \<longleftrightarrow>
     (9 \<le> c \<and> c \<le> 13) \<or> (28 \<le> c \<and> c \<le> 32) \<or> c = 133 \<or> c = 160 \<or> c = 5760 \<or>
     (8192 \<le> c \<and> c \<le> 8202) \<or> c = 8232 \<or> c = 8233 \<or> c = 8239 \<or> c = 8287 \<or> c = 12288"

definition strip :: "str \<Rightarrow> str" where
  "strip s = rev (dropWhile isspace (rev (dropWhile isspace s)))"

text \<open>\<open>sub in s\<close> on strings: \<open>sub\<close> occurs in \<open>s\<close> as a contiguous substring.\<close>

fun py_in :: "str \<Rightarrow> str \<Rightarrow> bool" where
  "py_in sub [] = (sub = [])"
| "py_in sub (c # cs) = (take (length sub) (c # cs) = sub \<or> py_in sub cs)"

abbreviation comma :: nat where "comma \<equiv> 44"
abbreviation lparen :: nat where "lparen \<equiv> 40"
abbreviation rparen :: nat where "rparen \<equiv> 41"
abbreviation newline :: nat where "newline \<equiv> 10"

section \<open>STEP 2: the nutrient splitter\<close>

subsection \<open>\<open>NUTRIENT_ITEM_REGEX = ([^,]+\([^)]*\))\<close>\<close>

text \<open>
  \<open>paren_group s\<close> matches \<open>\([^)]*\)\<close> at the start of \<open>s\<close> and returns the
  matched text and the rest. The greedy \<open>[^)]*\<close> runs to the first \<open>)\<close> or to the
  end of the string; giving characters back cannot help, since none of them is \<open>)\<close>.
\<close>

fun paren_group :: "str \<Rightarrow> (str \<times> str) option" where
  "paren_group [] = None"
| "paren_group (c # cs) =
     (if c = lparen \<and> rparen \<in> set cs
      then Some (c # takeWhile (\<lambda>x. x \<noteq> rparen) cs @ [rparen], tl (dropWhile (\<lambda>x. x \<noteq> rparen) cs))
      else None)"

text \<open>
  \<open>item_try n s\<close>: the greedy \<open>[^,]+\<close> has taken the first \<open>n\<close> characters of
  \<open>s\<close> (all of them non-commas) and gives them back one at a time until the
  parenthesised group matches behind it; at least one character stays.
\<close>

fun item_try :: "nat \<Rightarrow> str \<Rightarrow> (str \<times> str) option" where
  "item_try 0 s = None"
| "item_try (Suc n) s =
     (case paren_group (drop (Suc n) s) of
        Some (g, r) \<Rightarrow> Some (take (Suc n) s @ g, r)
      | None \<Rightarrow> item_try n s)"

definition item_at :: "str \<Rightarrow> (str \<times> str) option" where
  "item_at s = item_try (length (takeWhile (\<lambda>x. x \<noteq> comma) s)) s"

text \<open>
  \<open>findall\<close>: scan from the left; where the pattern matches, keep the match and go on
  behind it, otherwise move one character on. The pattern never matches the empty
  string.
\<close>

function findall :: "str \<Rightarrow> str list" where
  "findall [] = []"
| "findall (c # cs) =
     (case item_at (c # cs) of
        Some (it, r) \<Rightarrow> it # findall r
      | None \<Rightarrow> findall cs)"
  by pat_completeness auto
termination
proof (relation "measure length")
  show "wf (measure length)" by simp
next
  fix c :: nat and cs :: str and x2 x y
  assume "item_at (c # cs) = Some x2" and "(x, y) = x2"
  then have found:
    "item_try (length (takeWhile (\<lambda>x. x \<noteq> comma) (c # cs))) (c # cs) = Some (x, y)"
    by (simp add: item_at_def)
  have group: "length r < length s" if g: "paren_group s = Some (g, r)" for s g r
  proof (cases s)
    case Nil
    with g show ?thesis by simp
  next
    case (Cons d ds)
    with g have r: "r = tl (dropWhile (\<lambda>x. x \<noteq> rparen) ds)"
      by (simp split: if_splits)
    have "length (dropWhile (\<lambda>x. x \<noteq> rparen) ds) \<le> length ds"
      by (rule length_dropWhile_le)
    with r Cons show ?thesis by simp
  qed
  have shorter: "item_try n s = Some (it, r) \<Longrightarrow> length r < length s" for n s it r
  proof (induction n)
    case 0
    then show ?case by simp
  next
    case (Suc n)
    show ?case
    proof (cases "paren_group (drop (Suc n) s)")
      case None
      with Suc show ?thesis by simp
    next
      case (Some gr)
      obtain g r' where gr: "gr = (g, r')" by (cases gr)
      with Some Suc.prems have "r = r'" by simp
      moreover from Some gr have "paren_group (drop (Suc n) s) = Some (g, r')" by simp
      then have "length r' < length (drop (Suc n) s)" by (rule group)
      ultimately show ?thesis by simp
    qed
  qed
  from found have "length y < length (c # cs)" by (rule shorter)
  then show "(y, c # cs) \<in> measure length" by simp
next
  fix c :: nat and cs :: str
  show "(cs, c # cs) \<in> measure length" by simp
qed

subsection \<open>\<open>NUTRIENT_NAME_AND_QTY_REGEX = (.*?)\((.*?)\)\<close>\<close>

text \<open>
  \<open>.\<close> matches every character but the line feed. \<open>qty_match s\<close> matches
  \<open>(.*?)\)\<close> at the start of \<open>s\<close>: the lazy group grows one character at a time
  until a \<open>)\<close> follows; the result is the group.
\<close>

fun qty_match :: "str \<Rightarrow> str option" where
  "qty_match [] = None"
| "qty_match (c # cs) =
     (if c = rparen then Some []
      else if c = newline then None
      else map_option ((#) c) (qty_match cs))"

text \<open>
  \<open>name_qty_match s\<close> is \<open>NUTRIENT_NAME_AND_QTY_REGEX.match(s)\<close>, anchored at the
  start: the lazy first group grows one character at a time; at each length the rest of
  the pattern, \<open>\((.*?)\)\<close>, is tried first.
\<close>

fun name_qty_match :: "str \<Rightarrow> (str \<times> str) option" where
  "name_qty_match [] = None"
| "name_qty_match (c # cs) =
     (case (if c = lparen then qty_match cs else None) of
        Some q \<Rightarrow> Some ([], q)
      | None \<Rightarrow>
          if c = newline then None
          else map_option (\<lambda>(n, q). (c # n, q)) (name_qty_match cs))"

subsection \<open>\<open>parse_nutrients\<close>\<close>

definition nutrient_pair :: "str \<Rightarrow> str \<times> str" where
  "nutrient_pair item0 =
     (let item = strip item0 in
      case name_qty_match item of
        Some (name, qty) \<Rightarrow> (strip name, strip qty)
      | None \<Rightarrow> (item, []))"

definition parse_nutrients :: "str \<Rightarrow> (str \<times> str) list" where
  "parse_nutrients nutrient_text = map nutrient_pair (findall nutrient_text)"

section \<open>The parsed document\<close>

text \<open>
  \<open>BeautifulSoup(markup, "html.parser")\<close> is a third-party parser; it is a parameter
  \<open>html_parser\<close> of the model, from markup strings to the top-level nodes of the
  document. The tree is modelled as far as the program reads it: tags with a name and
  children, text nodes (\<open>NavigableString\<close>, \<open>CData\<close>: what \<open>get_text\<close> collects) and
  every other string node (comments, declarations, doctypes: what \<open>get_text\<close> skips).
\<close>

datatype node = Tag str "node list" | NavigableString str | OtherString str

type_synonym path = "nat list"

fun children :: "node \<Rightarrow> node list" where
  "children (Tag n cs) = cs"
| "children (NavigableString s) = []"
| "children (OtherString s) = []"

fun is_tag :: "str \<Rightarrow> node \<Rightarrow> bool" where
  "is_tag name (Tag n cs) = (n = name)"
| "is_tag name (NavigableString s) = False"
| "is_tag name (OtherString s) = False"

text \<open>
  \<open>descendants i xs\<close>: the nodes below a list of siblings whose first element has
  index \<open>i\<close>, in document order (a node before its children, before its next sibling),
  each with its address: the child indices on the way down to it.
\<close>

fun descendants :: "nat \<Rightarrow> node list \<Rightarrow> (path \<times> node) list" where
  "descendants i [] = []"
| "descendants i (Tag n cs # xs) =
     ([i], Tag n cs) # map (\<lambda>(p, y). (i # p, y)) (descendants 0 cs) @ descendants (Suc i) xs"
| "descendants i (NavigableString s # xs) = ([i], NavigableString s) # descendants (Suc i) xs"
| "descendants i (OtherString s # xs) = ([i], OtherString s) # descendants (Suc i) xs"

text \<open>\<open>find_all(name)\<close>: every descendant tag of that name, in document order.\<close>

definition find_all :: "str \<Rightarrow> node list \<Rightarrow> (path \<times> node) list" where
  "find_all name xs = filter (\<lambda>(p, y). is_tag name y) (descendants 0 xs)"

text \<open>\<open>tag.find(name)\<close>: the first descendant tag of that name, or \<open>None\<close>.\<close>

definition find_tag :: "str \<Rightarrow> node \<Rightarrow> (path \<times> node) option" where
  "find_tag name t = (case find_all name (children t) of [] \<Rightarrow> None | x # xs \<Rightarrow> Some x)"

text \<open>
  \<open>get_text(strip=True)\<close>: every text node below the tag, in document order, each
  stripped on its own; those that are empty after stripping are left out; the rest is
  joined with the empty separator.
\<close>

fun all_strings :: "node list \<Rightarrow> str list" where
  "all_strings [] = []"
| "all_strings (Tag n cs # xs) = all_strings cs @ all_strings xs"
| "all_strings (NavigableString s # xs) = s # all_strings xs"
| "all_strings (OtherString s # xs) = all_strings xs"

definition get_text_strip :: "node \<Rightarrow> str" where
  "get_text_strip t = concat (filter (\<lambda>s. s \<noteq> []) (map strip (all_strings (children t))))"


text \<open>
  \<open>element.extract()\<close> takes the element out of the tree. \<open>remove_at p xs\<close> is the
  list of siblings \<open>xs\<close> without the node at address \<open>p\<close>.
\<close>

fun set_children :: "node \<Rightarrow> node list \<Rightarrow> node" where
  "set_children (Tag n cs) cs' = Tag n cs'"
| "set_children (NavigableString s) cs' = NavigableString s"
| "set_children (OtherString s) cs' = OtherString s"

fun remove_at :: "path \<Rightarrow> node list \<Rightarrow> node list" where
  "remove_at [] xs = xs"
| "remove_at [i] xs = take i xs @ drop (Suc i) xs"
| "remove_at (i # j # p) xs =
     (if i < length xs then xs[i := set_children (xs ! i) (remove_at (j # p) (children (xs ! i)))]
      else xs)"

text \<open>\<open>node_at p xs\<close>: the node at address \<open>p\<close> below the siblings \<open>xs\<close>.\<close>

fun node_at :: "path \<Rightarrow> node list \<Rightarrow> node option" where
  "node_at [] xs = None"
| "node_at [i] xs = (if i < length xs then Some (xs ! i) else None)"
| "node_at (i # j # p) xs = (if i < length xs then node_at (j # p) (children (xs ! i)) else None)"

section \<open>STEP 2: the field extractor\<close>

abbreviation P :: str where "P \<equiv> [112]"
abbreviation STRONG :: str where "STRONG \<equiv> [115, 116, 114, 111, 110, 103]"

text \<open>
  \<open>str.lower()\<close> is Python's Unicode lower-casing; it is a parameter \<open>lower\<close> of the
  model, so that every theorem holds whatever it does.

  The inner loop of \<open>extract_field\<close>: some label, lower-cased, occurs in the text.
\<close>

definition label_matches :: "(str \<Rightarrow> str) \<Rightarrow> str list \<Rightarrow> str \<Rightarrow> bool" where
  "label_matches lower labels strong_text = list_ex (\<lambda>label. py_in (lower label) strong_text) labels"

text \<open>
  \<open>extract_field\<close> changes the document it is given (\<open>strong.extract()\<close>); the model
  returns the text and the document after the call.
\<close>

fun extract_field_loop ::
  "(str \<Rightarrow> str) \<Rightarrow> node list \<Rightarrow> str list \<Rightarrow> (path \<times> node) list \<Rightarrow> str \<times> node list" where
  "extract_field_loop lower soup labels [] = ([], soup)"
| "extract_field_loop lower soup labels ((pp, p) # ps) =
     (case find_tag STRONG p of
        Some (sp, strong) \<Rightarrow>
          if label_matches lower labels (lower (get_text_strip strong))
          then (get_text_strip (set_children p (remove_at sp (children p))), remove_at (pp @ sp) soup)
          else extract_field_loop lower soup labels ps
      | None \<Rightarrow> extract_field_loop lower soup labels ps)"

definition extract_field :: "(str \<Rightarrow> str) \<Rightarrow> node list \<Rightarrow> str list \<Rightarrow> str \<times> node list" where
  "extract_field lower soup labels = extract_field_loop lower soup labels (find_all P soup)"

text \<open>
  The markers, in the order of the source: \<open>ziviny\<close>, \<open>slozeni\<close>, \<open>ingredience\<close>,
  \<open>skladovani\<close>, \<open>hmotnost\<close>, \<open>puvod\<close>, \<open>allergen\<close>, with the Czech letters of the
  source. The source does not lower-case them; they are in lower case as written.
\<close>

definition known_markers :: "str list" where
  "known_markers =
     [[382, 105, 118, 105, 110, 121],
      [115, 108, 111, 382, 101, 110, 237],
      ascii ''ingredience'',
      [115, 107, 108, 97, 100, 111, 118, 225, 110, 237],
      ascii ''hmotnost'',
      [112, 367, 118, 111, 100],
      ascii ''allergen'']"

definition marker_in :: "str \<Rightarrow> bool" where
  "marker_in st_text = list_ex (\<lambda>marker. py_in marker st_text) known_markers"

fun extract_description_loop :: "(str \<Rightarrow> str) \<Rightarrow> (path \<times> node) list \<Rightarrow> str" where
  "extract_description_loop lower [] = []"
| "extract_description_loop lower ((pp, p) # ps) =
     (case find_tag STRONG p of
        Some (sp, strong) \<Rightarrow>
          if marker_in (lower (get_text_strip strong))
          then extract_description_loop lower ps
          else get_text_strip p
      | None \<Rightarrow> get_text_strip p)"

definition extract_description :: "(str \<Rightarrow> str) \<Rightarrow> node list \<Rightarrow> str" where
  "extract_description lower soup = extract_description_loop lower (find_all P soup)"

subsection \<open>Blocks and their first \<open>strong\<close>\<close>




section \<open>STEP 3: the row builder\<close>

text \<open>
  The values the program handles are those \<open>json.load\<close> delivers for the three fields
  it reads; the model has strings and \<open>None\<close> (JSON \<open>null\<close>). Numbers, booleans, arrays
  and objects in these fields are outside the model.
\<close>

datatype pyval = PyNone | PyStr str

datatype error = TypeError

text \<open>
  \<open>BeautifulSoup(markup, "html.parser")\<close>: a string is parsed; \<open>None\<close> has no length
  and no \<open>read\<close>, and the constructor raises \<open>TypeError\<close>.
\<close>

definition BeautifulSoup :: "(str \<Rightarrow> node list) \<Rightarrow> pyval \<Rightarrow> error + node list" where
  "BeautifulSoup html_parser markup =
     (case markup of PyNone \<Rightarrow> Inl TypeError | PyStr s \<Rightarrow> Inr (html_parser s))"

text \<open>\<open>body_html or ""\<close>: the empty string replaces a falsy value.\<close>

definition or_empty :: "pyval \<Rightarrow> pyval" where
  "or_empty v = (case v of PyNone \<Rightarrow> PyStr [] | PyStr s \<Rightarrow> (if s = [] then PyStr [] else PyStr s))"

record row =
  SKU :: str
  Title :: pyval
  Description :: str
  Allergen :: str
  Ingredients :: str
  Storage :: str
  Weight :: str
  Origin :: str
  Nutrient :: str
  Quantity :: str

text \<open>
  The label lists of the six calls: \<open>Allergen\<close>; \<open>Slozeni\<close>, \<open>Ingredience\<close>;
  \<open>Skladovani\<close>; \<open>Hmotnost\<close>; \<open>Puvod\<close>; \<open>Ziviny\<close> (with the Czech letters of the
  source).
\<close>

definition allergen_labels :: "str list" where
  "allergen_labels = [ascii ''Allergen'']"

definition ingredients_labels :: "str list" where
  "ingredients_labels = [[83, 108, 111, 382, 101, 110, 237], ascii ''Ingredience'']"

definition storage_labels :: "str list" where
  "storage_labels = [[83, 107, 108, 97, 100, 111, 118, 225, 110, 237]]"

definition weight_labels :: "str list" where
  "weight_labels = [ascii ''Hmotnost'']"

definition origin_labels :: "str list" where
  "origin_labels = [[80, 367, 118, 111, 100]]"

definition nutrient_labels :: "str list" where
  "nutrient_labels = [[381, 105, 118, 105, 110, 121]]"

text \<open>The product-level values computed before the rows are made.\<close>

record fields =
  f_description :: str
  f_allergen :: str
  f_ingredients :: str
  f_storage :: str
  f_weight :: str
  f_origin :: str

text \<open>
  The two dictionaries the function builds: the row that carries the product-level
  values, and the row of a further nutrient, whose product-level columns are blank.
\<close>

definition product_row :: "str \<Rightarrow> pyval \<Rightarrow> fields \<Rightarrow> str \<Rightarrow> str \<Rightarrow> row" where
  "product_row sku title f nut_name nut_qty =
     \<lparr>SKU = sku, Title = title, Description = f_description f, Allergen = f_allergen f,
      Ingredients = f_ingredients f, Storage = f_storage f, Weight = f_weight f,
      Origin = f_origin f, Nutrient = nut_name, Quantity = nut_qty\<rparr>"

definition nutrient_row :: "str \<Rightarrow> str \<Rightarrow> row" where
  "nutrient_row nut_name nut_qty =
     \<lparr>SKU = [], Title = PyStr [], Description = [], Allergen = [],
      Ingredients = [], Storage = [], Weight = [],
      Origin = [], Nutrient = nut_name, Quantity = nut_qty\<rparr>"

text \<open>The loop over \<open>enumerate(nutrient_pairs)\<close>, from index \<open>i\<close> on.\<close>

fun rows_loop :: "nat \<Rightarrow> str \<Rightarrow> pyval \<Rightarrow> fields \<Rightarrow> (str \<times> str) list \<Rightarrow> row list" where
  "rows_loop i sku title f [] = []"
| "rows_loop i sku title f ((nut_name, nut_qty) # rest) =
     (if i = 0 then product_row sku title f nut_name nut_qty else nutrient_row nut_name nut_qty)
     # rows_loop (Suc i) sku title f rest"

definition make_rows :: "str \<Rightarrow> pyval \<Rightarrow> fields \<Rightarrow> (str \<times> str) list \<Rightarrow> row list" where
  "make_rows sku title f nutrient_pairs =
     (if nutrient_pairs = [] then [product_row sku title f [] []]
      else rows_loop 0 sku title f nutrient_pairs)"

text \<open>
  An exception leaves the function at the call that raises it: \<open>then_do\<close> runs the
  rest on the value of a call that returned.
\<close>

definition then_do :: "error + 'a \<Rightarrow> ('a \<Rightarrow> error + 'b) \<Rightarrow> error + 'b" where
  "then_do r k = (case r of Inl e \<Rightarrow> Inl e | Inr x \<Rightarrow> k x)"

definition build_rows_for_product ::
  "(str \<Rightarrow> node list) \<Rightarrow> (str \<Rightarrow> str) \<Rightarrow> str \<Rightarrow> pyval \<Rightarrow> pyval \<Rightarrow> error + row list" where
  "build_rows_for_product html_parser lower sku title body_html =
     then_do (BeautifulSoup html_parser (or_empty body_html)) (\<lambda>soup.
     let description = extract_description lower soup in
     then_do (BeautifulSoup html_parser body_html) (\<lambda>soup1.
     let allergen = fst (extract_field lower soup1 allergen_labels) in
     then_do (BeautifulSoup html_parser body_html) (\<lambda>soup2.
     let ingredients = fst (extract_field lower soup2 ingredients_labels) in
     then_do (BeautifulSoup html_parser body_html) (\<lambda>soup3.
     let storage = fst (extract_field lower soup3 storage_labels) in
     then_do (BeautifulSoup html_parser body_html) (\<lambda>soup4.
     let weight = fst (extract_field lower soup4 weight_labels) in
     then_do (BeautifulSoup html_parser body_html) (\<lambda>soup5.
     let origin = fst (extract_field lower soup5 origin_labels) in
     then_do (BeautifulSoup html_parser body_html) (\<lambda>soup6.
     let nutrient_block = fst (extract_field lower soup6 nutrient_labels);
         nutrient_pairs = parse_nutrients nutrient_block
     in Inr (make_rows sku title
               \<lparr>f_description = description, f_allergen = allergen, f_ingredients = ingredients,
                f_storage = storage, f_weight = weight, f_origin = origin\<rparr>
               nutrient_pairs))))))))"

section \<open>STEP 1: the record aggregator\<close>

text \<open>
  A record of the input is a JSON object; of its keys the program reads \<open>sku\<close>,
  \<open>key\<close> and \<open>translation\<close>. Each is absent (\<open>None\<close> here) or holds a value.
\<close>

record raw_record =
  rec_sku :: "pyval option"
  rec_key :: "pyval option"
  rec_translation :: "pyval option"

text \<open>\<open>d.get(k, default)\<close> on the value stored under \<open>k\<close>, if any.\<close>

definition get_default :: "'a option \<Rightarrow> 'a \<Rightarrow> 'a" where
  "get_default v d = (case v of None \<Rightarrow> d | Some x \<Rightarrow> x)"

text \<open>The local variables of the loop body, as functions of the record.\<close>

definition sku_of :: "raw_record \<Rightarrow> pyval" where
  "sku_of r = get_default (rec_sku r) (PyStr [])"

definition key_of :: "raw_record \<Rightarrow> pyval" where
  "key_of r = get_default (rec_key r) PyNone"

definition translation_of :: "raw_record \<Rightarrow> pyval" where
  "translation_of r = get_default (rec_translation r) (PyStr [])"

text \<open>
  The inner dictionary of a product: the keys \<open>title\<close> and \<open>body_html\<close>, each absent
  until a record sets it.
\<close>

record info =
  info_title :: "pyval option"
  info_body_html :: "pyval option"

text \<open>
  \<open>products\<close> is a \<open>dict\<close>: it keeps its keys in the order of their first insertion,
  the order in which STEP 4 reads it. It is modelled as an association list; a new key
  goes to the end, a value is changed in place.
\<close>

type_synonym products = "(str \<times> info) list"

definition modify :: "str \<Rightarrow> (info \<Rightarrow> info) \<Rightarrow> products \<Rightarrow> products" where
  "modify sku f products = map (\<lambda>(k, v). if k = sku then (k, f v) else (k, v)) products"

abbreviation title_key :: str where "title_key \<equiv> [116, 105, 116, 108, 101]"
abbreviation body_html_key :: str where
  "body_html_key \<equiv> [98, 111, 100, 121, 95, 104, 116, 109, 108]"

definition aggregate_step :: "products \<Rightarrow> raw_record \<Rightarrow> products" where
  "aggregate_step products r =
     (case sku_of r of
        PyNone \<Rightarrow> products
      | PyStr sku \<Rightarrow>
          if sku = [] then products
          else
            let products1 =
                  (if map_of products sku = None
                   then products @ [(sku, \<lparr>info_title = None, info_body_html = None\<rparr>)]
                   else products);
                key = key_of r;
                translation = translation_of r
            in if key = PyStr title_key
               then modify sku (\<lambda>i. i\<lparr>info_title := Some translation\<rparr>) products1
               else if key = PyStr body_html_key
               then modify sku (\<lambda>i. i\<lparr>info_body_html := Some translation\<rparr>) products1
               else products1)"

definition aggregate :: "raw_record list \<Rightarrow> products" where
  "aggregate data = foldl aggregate_step [] data"

text \<open>
  The translation of the last record of the input with the identifier \<open>I\<close> and the
  key \<open>k\<close>, if there is one.
\<close>

definition last_translation :: "str \<Rightarrow> str \<Rightarrow> raw_record list \<Rightarrow> pyval option" where
  "last_translation I k data =
     (let rs = filter (\<lambda>r. sku_of r = PyStr I \<and> key_of r = PyStr k) data
      in if rs = [] then None else Some (translation_of (last rs)))"

section \<open>STEP 4: all rows\<close>

fun all_csv_rows_loop ::
  "(str \<Rightarrow> node list) \<Rightarrow> (str \<Rightarrow> str) \<Rightarrow> row list \<Rightarrow> products \<Rightarrow> error + row list" where
  "all_csv_rows_loop html_parser lower all_csv_rows [] = Inr all_csv_rows"
| "all_csv_rows_loop html_parser lower all_csv_rows ((sku, info) # rest) =
     then_do
       (build_rows_for_product html_parser lower sku
          (get_default (info_title info) (PyStr []))
          (get_default (info_body_html info) (PyStr [])))
       (\<lambda>product_rows. all_csv_rows_loop html_parser lower (all_csv_rows @ product_rows) rest)"

definition all_csv_rows ::
  "(str \<Rightarrow> node list) \<Rightarrow> (str \<Rightarrow> str) \<Rightarrow> raw_record list \<Rightarrow> error + row list" where
  "all_csv_rows html_parser lower data = all_csv_rows_loop html_parser lower [] (aggregate data)"

section \<open>Example inputs\<close>

text \<open>
  A lower-casing function for the letters of the labels: \<open>A\<close> to \<open>Z\<close>, and the Czech
  capital \<open>Z\<close> with caron (U+017D).
\<close>

definition example_lower :: "str \<Rightarrow> str" where
  "example_lower s = map (\<lambda>c. if 65 \<le> c \<and> c \<le> 90 then c + 32 else if c = 381 then 382 else c) s"

text \<open>
  Two markup strings and the documents a parser makes of them:
  \<^verbatim>\<open><p>Maslo</p><p><strong>ZIVINY:</strong> Tuky(99.7g), Cukr(0g)</p>\<close> (with the
  Czech capital letter U+017D for the first \<open>Z\<close>), and
  \<^verbatim>\<open><p><strong>Pozor</strong> mleko <strong>Allergen</strong></p>\<close>.
\<close>

definition example_markup :: str where
  "example_markup =
     ascii ''<p>Maslo</p><p><strong>'' @ [381] @ ascii ''IVINY:</strong> Tuky(99.7g), Cukr(0g)</p>''"

definition example_document :: "node list" where
  "example_document =
     [Tag P [NavigableString (ascii ''Maslo'')],
      Tag P [Tag STRONG [NavigableString ([381] @ ascii ''IVINY:'')],
             NavigableString (ascii '' Tuky(99.7g), Cukr(0g)'')]]"

definition example_markup2 :: str where
  "example_markup2 = ascii ''<p><strong>Pozor</strong> mleko <strong>Allergen</strong></p>''"

definition example_document2 :: "node list" where
  "example_document2 =
     [Tag P [Tag STRONG [NavigableString (ascii ''Pozor'')],
             NavigableString (ascii '' mleko ''),
             Tag STRONG [NavigableString (ascii ''Allergen'')]]]"

text \<open>
  A third: \<^verbatim>\<open><p><strong>Hmotnost:</strong> 250 g</p><p>Maslo <em>cerstve</em></p>\<close>.
\<close>

definition example_markup3 :: str where
  "example_markup3 = ascii ''<p><strong>Hmotnost:</strong> 250 g</p><p>Maslo <em>cerstve</em></p>''"

definition example_document3 :: "node list" where
  "example_document3 =
     [Tag P [Tag STRONG [NavigableString (ascii ''Hmotnost:'')], NavigableString (ascii '' 250 g'')],
      Tag P [NavigableString (ascii ''Maslo ''), Tag (ascii ''em'') [NavigableString (ascii ''cerstve'')]]]"


definition example_parser :: "str \<Rightarrow> node list" where
  "example_parser s =
     (if s = [] then []
      else if s = example_markup then example_document
      else if s = example_markup2 then example_document2
      else if s = example_markup3 then example_document3
      else [NavigableString s])"

text \<open>The sample string of the docstring of \<open>parse_nutrients\<close>.\<close>

definition sample_nutrients :: str where
  "sample_nutrients =
     ascii ''Celkov'' @ [233] @ ascii '' Tuky(99.7g),Sacharidy(0g), Cukr(0g), Vitamin A(700), B''
       @ [237] @ ascii ''lkoviny(0g)''"

text \<open>An input: two products, a record without identifier, a record with another key.\<close>

definition example_data :: "raw_record list" where
  "example_data =
     [\<lparr>rec_sku = Some (PyStr (ascii ''A'')), rec_key = Some (PyStr title_key),
       rec_translation = Some (PyStr (ascii ''Maslo 1''))\<rparr>,
      \<lparr>rec_sku = Some (PyStr []), rec_key = Some (PyStr title_key),
       rec_translation = Some (PyStr (ascii ''Nic''))\<rparr>,
      \<lparr>rec_sku = Some (PyStr (ascii ''B'')), rec_key = Some (PyStr body_html_key),
       rec_translation = Some (PyStr example_markup3)\<rparr>,
      \<lparr>rec_sku = Some (PyStr (ascii ''A'')), rec_key = Some (PyStr (ascii ''price'')),
       rec_translation = Some (PyStr (ascii ''9''))\<rparr>,
      \<lparr>rec_sku = Some (PyStr (ascii ''A'')), rec_key = Some (PyStr title_key),
       rec_translation = Some (PyStr (ascii ''Maslo 2''))\<rparr>,
      \<lparr>rec_sku = Some (PyStr (ascii ''A'')), rec_key = Some (PyStr body_html_key),
       rec_translation = Some (PyStr example_markup)\<rparr>]"

text \<open>An input with one record, of a key that is neither \<open>title\<close> nor \<open>body_html\<close>.\<close>

definition example_price_only :: "raw_record list" where
  "example_price_only =
     [\<lparr>rec_sku = Some (PyStr (ascii ''A'')), rec_key = Some (PyStr (ascii ''price'')),
       rec_translation = Some (PyStr (ascii ''9''))\<rparr>]"

text \<open>An input whose only record has the key \<open>body_html\<close> and the translation \<open>null\<close>.\<close>

definition example_null_body :: "raw_record list" where
  "example_null_body =
     [\<lparr>rec_sku = Some (PyStr (ascii ''A'')), rec_key = Some (PyStr body_html_key),
       rec_translation = Some PyNone\<rparr>]"

text \<open>
  A document of one block whose \<open>strong\<close> is the label \<open>x\<close>: whatever \<open>lower\<close> does, the
  block matches the label \<open>x\<close>, and the call takes the \<open>strong\<close> out of the document.
\<close>

definition example_block :: "node list" where
  "example_block = [Tag P [Tag STRONG [NavigableString [120]], NavigableString [121]]]"

text \<open>The defining equations that evaluate the model on a concrete input.\<close>

lemmas eval_defs =
  ascii_def strip_def isspace_def item_at_def nutrient_pair_def parse_nutrients_def
  find_all_def find_tag_def get_text_strip_def label_matches_def extract_field_def
  known_markers_def marker_in_def extract_description_def
  allergen_labels_def ingredients_labels_def storage_labels_def weight_labels_def
  origin_labels_def nutrient_labels_def
  example_lower_def example_markup_def example_document_def example_markup2_def
  example_document2_def example_markup3_def example_document3_def example_parser_def

lemmas record_defs = sku_of_def key_of_def translation_of_def get_default_def

section \<open>The rows of one product\<close>

lemma length_rows_loop: "length (rows_loop i sku title f ps) = length ps"
  by (induction ps arbitrary: i) auto

lemma rows_loop_nth:
  "j < length ps \<Longrightarrow>
   rows_loop i sku title f ps ! j =
     (if i + j = 0 then product_row sku title f (fst (ps ! j)) (snd (ps ! j))
      else nutrient_row (fst (ps ! j)) (snd (ps ! j)))"
proof (induction ps arbitrary: i j)
  case Nil
  then show ?case by simp
next
  case (Cons a ps)
  obtain n q where a: "a = (n, q)" by (cases a)
  show ?case
  proof (cases j)
    case 0
    with a show ?thesis by simp
  next
    case (Suc k)
    with Cons.prems have "k < length ps" by simp
    from Cons.IH [OF this, of "Suc i"] a Suc show ?thesis by simp
  qed
qed

lemma length_make_rows: "length (make_rows sku title f ps) = max 1 (length ps)"
  by (cases ps) (simp_all add: make_rows_def length_rows_loop)

lemma make_rows_first:
  "make_rows sku title f ps ! 0 =
     (case ps of [] \<Rightarrow> product_row sku title f [] []
      | (n, q) # rest \<Rightarrow> product_row sku title f n q)"
  by (cases ps) (auto simp: make_rows_def)

lemma make_rows_later:
  "0 < j \<Longrightarrow> j < length ps \<Longrightarrow>
   make_rows sku title f ps ! j = nutrient_row (fst (ps ! j)) (snd (ps ! j))"
  by (cases ps) (simp_all add: make_rows_def rows_loop_nth)

text \<open>
  On a markup string no call raises: every \<open>BeautifulSoup\<close> call parses the same
  string, and each extraction works on the document of its own call.
\<close>

lemma build_rows_for_product_str:
  "build_rows_for_product html_parser lower sku title (PyStr markup) =
     Inr (make_rows sku title
       \<lparr>f_description = extract_description lower (html_parser markup),
        f_allergen = fst (extract_field lower (html_parser markup) allergen_labels),
        f_ingredients = fst (extract_field lower (html_parser markup) ingredients_labels),
        f_storage = fst (extract_field lower (html_parser markup) storage_labels),
        f_weight = fst (extract_field lower (html_parser markup) weight_labels),
        f_origin = fst (extract_field lower (html_parser markup) origin_labels)\<rparr>
       (parse_nutrients (fst (extract_field lower (html_parser markup) nutrient_labels))))"
  by (simp add: build_rows_for_product_def then_do_def BeautifulSoup_def or_empty_def)

text \<open>
  C1. For every identifier, title and markup string the row builder returns rows, as
  many as the nutrient splitter yields pairs and at least one. Row 0 carries the
  identifier as SKU; every later row has the eight product-level columns empty (so no
  row but row 0 can have a non-empty SKU); row \<open>i\<close> carries the \<open>i\<close>-th pair of the
  splitter as Nutrient and Quantity.
\<close>

theorem build_rows_for_product_rows:
  "\<exists>rows. build_rows_for_product html_parser lower sku title (PyStr markup) = Inr rows \<and>
     (let pairs = parse_nutrients (fst (extract_field lower (html_parser markup) nutrient_labels))
      in length rows = max 1 (length pairs) \<and>
         SKU (rows ! 0) = sku \<and>
         (\<forall>i. i < length rows \<and> SKU (rows ! i) \<noteq> [] \<longrightarrow> i = 0) \<and>
         (\<forall>i. 0 < i \<and> i < length pairs \<longrightarrow>
            rows ! i =
              \<lparr>SKU = [], Title = PyStr [], Description = [], Allergen = [], Ingredients = [],
               Storage = [], Weight = [], Origin = [],
               Nutrient = fst (pairs ! i), Quantity = snd (pairs ! i)\<rparr>) \<and>
         (\<forall>i. i < length pairs \<longrightarrow>
            Nutrient (rows ! i) = fst (pairs ! i) \<and> Quantity (rows ! i) = snd (pairs ! i)))"
proof -
  define pairs where
    "pairs = parse_nutrients (fst (extract_field lower (html_parser markup) nutrient_labels))"
  define f where
    "f = \<lparr>f_description = extract_description lower (html_parser markup),
        f_allergen = fst (extract_field lower (html_parser markup) allergen_labels),
        f_ingredients = fst (extract_field lower (html_parser markup) ingredients_labels),
        f_storage = fst (extract_field lower (html_parser markup) storage_labels),
        f_weight = fst (extract_field lower (html_parser markup) weight_labels),
        f_origin = fst (extract_field lower (html_parser markup) origin_labels)\<rparr>"
  define rows where "rows = make_rows sku title f pairs"
  have ret: "build_rows_for_product html_parser lower sku title (PyStr markup) = Inr rows"
    unfolding rows_def f_def pairs_def by (rule build_rows_for_product_str)
  have len: "length rows = max 1 (length pairs)"
    unfolding rows_def by (rule length_make_rows)
  have first: "SKU (rows ! 0) = sku"
    unfolding rows_def by (simp add: make_rows_first product_row_def split: list.splits)
  have later: "rows ! i = nutrient_row (fst (pairs ! i)) (snd (pairs ! i))"
    if "0 < i" "i < length pairs" for i
    unfolding rows_def using that by (rule make_rows_later)
  have only: "i = 0" if "i < length rows" "SKU (rows ! i) \<noteq> []" for i
  proof (rule ccontr)
    assume "i \<noteq> 0"
    with that(1) len have "0 < i" "i < length pairs" by auto
    then have "SKU (rows ! i) = []" by (simp add: later nutrient_row_def)
    with that(2) show False by simp
  qed
  have nut: "Nutrient (rows ! i) = fst (pairs ! i) \<and> Quantity (rows ! i) = snd (pairs ! i)"
    if "i < length pairs" for i
  proof (cases i)
    case 0
    with that show ?thesis
      unfolding rows_def by (cases pairs) (auto simp: make_rows_first product_row_def)
  next
    case (Suc k)
    with that show ?thesis by (simp add: later nutrient_row_def)
  qed
  from ret len first later only nut show ?thesis
    unfolding pairs_def [symmetric] Let_def nutrient_row_def by blast
qed

theorem build_rows_for_product_rows_witness:
  "\<exists>rows. build_rows_for_product example_parser example_lower (ascii ''A1'')
            (PyStr (ascii ''Maslo'')) (PyStr example_markup) = Inr rows \<and>
     length rows = 2 \<and>
     SKU (rows ! 0) = ascii ''A1'' \<and>
     Nutrient (rows ! 0) = ascii ''Tuky'' \<and> Quantity (rows ! 0) = ascii ''99.7g'' \<and>
     rows ! 1 =
       \<lparr>SKU = [], Title = PyStr [], Description = [], Allergen = [], Ingredients = [],
        Storage = [], Weight = [], Origin = [],
        Nutrient = ascii ''Cukr'', Quantity = ascii ''0g''\<rparr>"
proof -
  have pairs:
    "parse_nutrients (fst (extract_field example_lower (example_parser example_markup) nutrient_labels))
       = [(ascii ''Tuky'', ascii ''99.7g''), (ascii ''Cukr'', ascii ''0g'')]"
    by (simp add: eval_defs)
  from build_rows_for_product_rows [of example_parser example_lower "ascii ''A1''"
      "PyStr (ascii ''Maslo'')" example_markup]
  obtain rows where
    ret: "build_rows_for_product example_parser example_lower (ascii ''A1'')
            (PyStr (ascii ''Maslo'')) (PyStr example_markup) = Inr rows"
    and len: "length rows = 2"
    and first: "SKU (rows ! 0) = ascii ''A1''"
    and later: "\<And>i. 0 < i \<and> i < 2 \<Longrightarrow>
          rows ! i =
            \<lparr>SKU = [], Title = PyStr [], Description = [], Allergen = [], Ingredients = [],
             Storage = [], Weight = [], Origin = [],
             Nutrient = fst ([(ascii ''Tuky'', ascii ''99.7g''), (ascii ''Cukr'', ascii ''0g'')] ! i),
             Quantity = snd ([(ascii ''Tuky'', ascii ''99.7g''), (ascii ''Cukr'', ascii ''0g'')] ! i)\<rparr>"
    and nut: "\<And>i. i < 2 \<Longrightarrow>
          Nutrient (rows ! i) = fst ([(ascii ''Tuky'', ascii ''99.7g''), (ascii ''Cukr'', ascii ''0g'')] ! i) \<and>
          Quantity (rows ! i) = snd ([(ascii ''Tuky'', ascii ''99.7g''), (ascii ''Cukr'', ascii ''0g'')] ! i)"
    unfolding pairs Let_def by auto
  from later [of 1] have r1: "rows ! 1 =
       \<lparr>SKU = [], Title = PyStr [], Description = [], Allergen = [], Ingredients = [],
        Storage = [], Weight = [], Origin = [],
        Nutrient = ascii ''Cukr'', Quantity = ascii ''0g''\<rparr>"
    by simp
  from nut [of 0] have r0: "Nutrient (rows ! 0) = ascii ''Tuky'' \<and> Quantity (rows ! 0) = ascii ''99.7g''"
    by simp
  from ret len first r0 r1 show ?thesis by blast
qed

section \<open>The nutrient splitter\<close>

subsection \<open>What the item pattern finds\<close>

lemma paren_group_Some:
  assumes "paren_group s = Some (g, r)"
  shows "s = g @ r \<and> lparen \<in> set g \<and> g \<noteq> [] \<and> last g = rparen"
proof (cases s)
  case Nil
  with assms show ?thesis by simp
next
  case (Cons c cs)
  with assms have c: "c = lparen" and mem: "rparen \<in> set cs"
    and g: "g = c # takeWhile (\<lambda>x. x \<noteq> rparen) cs @ [rparen]"
    and r: "r = tl (dropWhile (\<lambda>x. x \<noteq> rparen) cs)"
    by (auto split: if_splits)
  from mem have "dropWhile (\<lambda>x. x \<noteq> rparen) cs \<noteq> []" by simp
  moreover from mem have "hd (dropWhile (\<lambda>x. x \<noteq> rparen) cs) = rparen"
    using hd_dropWhile [of "\<lambda>x. x \<noteq> rparen" cs] by simp
  ultimately have "dropWhile (\<lambda>x. x \<noteq> rparen) cs = rparen # r"
    unfolding r by (cases "dropWhile (\<lambda>x. x \<noteq> rparen) cs") auto
  then have "cs = takeWhile (\<lambda>x. x \<noteq> rparen) cs @ rparen # r"
    using takeWhile_dropWhile_id [of "\<lambda>x. x \<noteq> rparen" cs] by simp
  with Cons g c show ?thesis by simp
qed

lemma item_try_Some:
  "item_try n s = Some (it, r) \<Longrightarrow> s = it @ r \<and> lparen \<in> set it \<and> it \<noteq> [] \<and> last it = rparen"
proof (induction n)
  case 0
  then show ?case by simp
next
  case (Suc n)
  show ?case
  proof (cases "paren_group (drop (Suc n) s)")
    case None
    with Suc show ?thesis by simp
  next
    case (Some gr)
    obtain g r' where gr: "gr = (g, r')" by (cases gr)
    with Some Suc.prems have it: "it = take (Suc n) s @ g" and "r = r'" by simp_all
    from Some gr have "paren_group (drop (Suc n) s) = Some (g, r')" by simp
    from paren_group_Some [OF this] have
      "drop (Suc n) s = g @ r'" "lparen \<in> set g" "g \<noteq> []" "last g = rparen" by simp_all
    moreover have "s = take (Suc n) s @ drop (Suc n) s" by simp
    ultimately show ?thesis using it \<open>r = r'\<close>
      by (metis append.assoc UnCI set_append append_is_Nil_conv last_appendR)
  qed
qed

lemma findall_items:
  "item \<in> set (findall s) \<Longrightarrow> lparen \<in> set item \<and> item \<noteq> [] \<and> last item = rparen"
proof (induction s rule: findall.induct)
  case 1
  then show ?case by simp
next
  case (2 c cs)
  show ?case
  proof (cases "item_at (c # cs)")
    case None
    with 2 show ?thesis by simp
  next
    case (Some a)
    obtain it r where a: "a = (it, r)" by (cases a)
    from Some a have "item_try (length (takeWhile (\<lambda>x. x \<noteq> comma) (c # cs))) (c # cs) = Some (it, r)"
      by (simp add: item_at_def)
    from item_try_Some [OF this] have "lparen \<in> set it \<and> it \<noteq> [] \<and> last it = rparen" by simp
    moreover from "2.prems" Some a have "item = it \<or> item \<in> set (findall r)" by simp
    moreover have "item \<in> set (findall r) \<Longrightarrow> ?thesis"
      using "2.IH"(2) [OF Some a [symmetric]] by simp
    ultimately show ?thesis by blast
  qed
qed

lemma paren_group_None: "lparen \<notin> set s \<Longrightarrow> paren_group s = None"
  by (cases s) auto

lemma item_try_None: "lparen \<notin> set s \<Longrightarrow> item_try n s = None"
proof (induction n)
  case 0
  show ?case by simp
next
  case (Suc n)
  from Suc.prems have "lparen \<notin> set (drop (Suc n) s)"
    by (meson in_set_dropD)
  then have "paren_group (drop (Suc n) s) = None" by (rule paren_group_None)
  with Suc show ?case by simp
qed

lemma findall_no_lparen: "lparen \<notin> set s \<Longrightarrow> findall s = []"
proof (induction s)
  case Nil
  show ?case by simp
next
  case (Cons c cs)
  from Cons.prems have "item_at (c # cs) = None"
    unfolding item_at_def by (rule item_try_None)
  with Cons show ?case by simp
qed

subsection \<open>What the name and quantity pattern matches\<close>

lemma qty_match_first:
  "rparen \<notin> set q \<Longrightarrow> newline \<notin> set q \<Longrightarrow> qty_match (q @ rparen # rest) = Some q"
  by (induction q) auto

lemma name_qty_match_first:
  assumes "lparen \<notin> set n" "newline \<notin> set n" "rparen \<notin> set q" "newline \<notin> set q"
  shows "name_qty_match (n @ lparen # q @ rparen # rest) = Some (n, q)"
  using assms(1,2)
proof (induction n)
  case Nil
  from assms(3,4) show ?case by (simp add: qty_match_first)
next
  case (Cons c n)
  then show ?case by simp
qed

lemma qty_match_Some:
  "qty_match s = Some q \<Longrightarrow>
   \<exists>rest. s = q @ rparen # rest \<and> rparen \<notin> set q \<and> newline \<notin> set q"
proof (induction s arbitrary: q)
  case Nil
  then show ?case by simp
next
  case (Cons c cs)
  show ?case
  proof (cases "c = rparen")
    case True
    with Cons.prems show ?thesis by simp
  next
    case False
    with Cons.prems obtain q' where c: "c \<noteq> newline" and q': "qty_match cs = Some q'"
      and q: "q = c # q'"
      by (auto split: if_splits)
    from Cons.IH [OF q'] obtain rest where
      "cs = q' @ rparen # rest" "rparen \<notin> set q'" "newline \<notin> set q'" by blast
    with False c q show ?thesis by simp
  qed
qed

lemma name_match_needs_qty: "name_qty_match s = Some (n, q) \<Longrightarrow> qty_match s \<noteq> None"
proof (induction s arbitrary: n)
  case Nil
  then show ?case by simp
next
  case (Cons c cs)
  show ?case
  proof (cases "c = rparen \<or> c = newline")
    case True
    with Cons.prems show ?thesis by (auto split: option.splits if_splits)
  next
    case False
    then have "qty_match (c # cs) = map_option ((#) c) (qty_match cs)" by simp
    moreover have "qty_match cs \<noteq> None"
    proof (cases "c = lparen \<and> qty_match cs \<noteq> None")
      case True
      then show ?thesis by simp
    next
      case no: False
      with Cons.prems False obtain n' where "name_qty_match cs = Some (n', q)"
        by (auto split: option.splits if_splits)
      then show ?thesis by (rule Cons.IH)
    qed
    ultimately show ?thesis by simp
  qed
qed

lemma name_qty_match_Some:
  "name_qty_match s = Some (n, q) \<Longrightarrow>
   \<exists>rest. s = n @ lparen # q @ rparen # rest \<and>
     lparen \<notin> set n \<and> newline \<notin> set n \<and> rparen \<notin> set q \<and> newline \<notin> set q"
proof (induction s arbitrary: n)
  case Nil
  then show ?case by simp
next
  case (Cons c cs)
  show ?case
  proof (cases "c = lparen \<and> qty_match cs \<noteq> None")
    case True
    then obtain q' where q': "qty_match cs = Some q'" by blast
    with True Cons.prems have "n = []" "q = q'" by simp_all
    with qty_match_Some [OF q'] True show ?thesis by auto
  next
    case False
    with Cons.prems obtain n' where c: "c \<noteq> newline"
      and n': "name_qty_match cs = Some (n', q)" and n: "n = c # n'"
      by (auto split: option.splits if_splits)
    from name_match_needs_qty [OF n'] False have "c \<noteq> lparen" by blast
    moreover from Cons.IH [OF n'] obtain rest where
      "cs = n' @ lparen # q @ rparen # rest" "lparen \<notin> set n'" "newline \<notin> set n'"
      "rparen \<notin> set q" "newline \<notin> set q" by blast
    ultimately show ?thesis using c n by simp
  qed
qed

text \<open>
  The name and quantity pattern matches exactly the strings that read
  \<open>name ( qty ) rest\<close> with no \<open>(\<close> in the name, no \<open>)\<close> in the quantity and no
  line feed in either.
\<close>

lemma name_qty_match_iff:
  "name_qty_match s = Some (n, q) \<longleftrightarrow>
   (\<exists>rest. s = n @ lparen # q @ rparen # rest \<and>
      lparen \<notin> set n \<and> newline \<notin> set n \<and> rparen \<notin> set q \<and> newline \<notin> set q)"
  using name_qty_match_Some name_qty_match_first by blast

lemma strip_no_trailing_space:
  assumes "s \<noteq> []" "\<not> isspace (last s)"
  shows "strip s = dropWhile isspace s"
proof -
  from assms have "\<exists>x\<in>set s. \<not> isspace x"
    using last_in_set by blast
  then have ne: "dropWhile isspace s \<noteq> []" by simp
  have "last (dropWhile isspace s) = last s"
    using last_appendR [OF ne, of "takeWhile isspace s"]
    by (simp only: takeWhile_dropWhile_id)
  with assms(2) ne have "\<not> isspace (hd (rev (dropWhile isspace s)))"
    by (simp add: hd_rev)
  moreover from ne have "rev (dropWhile isspace s) \<noteq> []" by simp
  ultimately have "dropWhile isspace (rev (dropWhile isspace s)) = rev (dropWhile isspace s)"
    by (cases "rev (dropWhile isspace s)") auto
  then show ?thesis by (simp add: strip_def)
qed

lemma strip_dropWhile: "strip (dropWhile isspace s) = strip s"
  by (simp add: strip_def)

lemma dropWhile_space_lparen:
  "dropWhile isspace (n @ lparen # t) = dropWhile isspace n @ lparen # t"
  by (induction n) (auto simp: isspace_def)

text \<open>
  An item that does not end in white space and reads \<open>name ( qty ) rest\<close>, with no
  \<open>(\<close> in the name and no \<open>)\<close> in the quantity. The item is stripped before it is
  matched, so the white space the name begins with, line feeds too, is gone by then:
  what counts is a line feed in the name after that, or in the quantity.
\<close>

lemma strip_item_form:
  assumes item: "item = n @ lparen # q @ rparen # rest"
    and last: "\<not> isspace (last item)"
  shows "strip item = dropWhile isspace n @ lparen # q @ rparen # rest"
proof -
  from item have ne: "item \<noteq> []" by simp
  from ne last have "strip item = dropWhile isspace item" by (rule strip_no_trailing_space)
  also from item have "\<dots> = dropWhile isspace n @ lparen # q @ rparen # rest"
    by (simp add: dropWhile_space_lparen)
  finally show ?thesis .
qed

lemma nutrient_pair_form:
  assumes item: "item = n @ lparen # q @ rparen # rest"
    and last: "\<not> isspace (last item)"
    and n: "lparen \<notin> set n" "newline \<notin> set (dropWhile isspace n)"
    and q: "rparen \<notin> set q" "newline \<notin> set q"
  shows "nutrient_pair item = (strip n, strip q)"
proof -
  have s: "strip item = dropWhile isspace n @ lparen # q @ rparen # rest"
    using item last by (rule strip_item_form)
  from n(1) have "lparen \<notin> set (dropWhile isspace n)"
    by (auto dest: set_dropWhileD)
  then have "name_qty_match (strip item) = Some (dropWhile isspace n, q)"
    unfolding s using n(2) q by (rule name_qty_match_first)
  then show ?thesis by (simp add: nutrient_pair_def strip_dropWhile)
qed

lemma split_at_first:
  assumes "a @ x # b = a' @ x # b'" "x \<notin> set a" "x \<notin> set a'"
  shows "a = a' \<and> b = b'"
  using assms
proof (induction a arbitrary: a')
  case Nil
  then show ?case by (cases a') auto
next
  case (Cons c a)
  then show ?case by (cases a') auto
qed

text \<open>
  For such an item the pair is that of the stripped name and the stripped quantity
  exactly when no line feed stands in the name behind its leading white space or in the
  quantity; otherwise the pattern does not match and the pair is the stripped item
  with the empty quantity.
\<close>

lemma nutrient_pair_form_iff:
  assumes item: "item = n @ lparen # q @ rparen # rest"
    and last: "\<not> isspace (last item)"
    and n: "lparen \<notin> set n"
    and q: "rparen \<notin> set q"
  shows "nutrient_pair item = (strip n, strip q) \<longleftrightarrow>
     newline \<notin> set (dropWhile isspace n) \<and> newline \<notin> set q"
proof
  assume "newline \<notin> set (dropWhile isspace n) \<and> newline \<notin> set q"
  with item last n q show "nutrient_pair item = (strip n, strip q)"
    by (intro nutrient_pair_form) simp_all
next
  assume pair: "nutrient_pair item = (strip n, strip q)"
  have s: "strip item = dropWhile isspace n @ lparen # q @ rparen # rest"
    using item last by (rule strip_item_form)
  from n have dn: "lparen \<notin> set (dropWhile isspace n)"
    by (auto dest: set_dropWhileD)
  show "newline \<notin> set (dropWhile isspace n) \<and> newline \<notin> set q"
  proof (cases "name_qty_match (strip item)")
    case None
    with pair have "strip item = strip n" by (simp add: nutrient_pair_def)
    moreover have "lparen \<in> set (strip item)" unfolding s by simp
    moreover have "set (strip n) \<subseteq> set n"
      unfolding strip_def by (auto dest!: set_dropWhileD)
    ultimately show ?thesis using n by auto
  next
    case (Some a)
    obtain n' q' where a: "a = (n', q')" by (cases a)
    from Some a have "name_qty_match (strip item) = Some (n', q')" by simp
    from name_qty_match_Some [OF this] obtain rest' where
      s': "strip item = n' @ lparen # q' @ rparen # rest'"
      and n': "lparen \<notin> set n'" "newline \<notin> set n'"
      and q': "rparen \<notin> set q'" "newline \<notin> set q'" by blast
    from s s' have "dropWhile isspace n @ lparen # (q @ rparen # rest) =
        n' @ lparen # (q' @ rparen # rest')" by simp
    from split_at_first [OF this dn n'(1)] have
      same_n: "dropWhile isspace n = n'" and "q @ rparen # rest = q' @ rparen # rest'" by simp_all
    from split_at_first [OF this(2) q q'(1)] have "q = q'" by simp
    with same_n n'(2) q'(2) show ?thesis by simp
  qed
qed

subsection \<open>A block of one item\<close>

lemma item_try_skip:
  "\<forall>j. k < j \<and> j \<le> k + d \<longrightarrow> paren_group (drop j s) = None \<Longrightarrow>
   item_try (k + d) s = item_try k s"
proof (induction d)
  case 0
  show ?case by simp
next
  case (Suc d)
  from Suc.prems have "paren_group (drop (Suc (k + d)) s) = None" by simp
  then have "item_try (k + Suc d) s = item_try (k + d) s" by simp
  moreover from Suc.prems have "\<forall>j. k < j \<and> j \<le> k + d \<longrightarrow> paren_group (drop j s) = None"
    by simp
  ultimately show ?case using Suc.IH by simp
qed

lemma paren_group_not_lparen: "s = [] \<or> hd s \<noteq> lparen \<Longrightarrow> paren_group s = None"
  by (cases s) auto

lemma findall_single_item:
  assumes n: "n \<noteq> []" "comma \<notin> set n" "lparen \<notin> set n"
    and q: "comma \<notin> set q" "lparen \<notin> set q" "rparen \<notin> set q"
  shows "findall (n @ lparen # q @ [rparen]) = [n @ lparen # q @ [rparen]]"
proof -
  let ?s = "n @ lparen # q @ [rparen]"
  have run: "takeWhile (\<lambda>x. x \<noteq> comma) ?s = ?s"
    using n(2) q(1) by (auto simp: takeWhile_eq_all_conv)
  have len: "length ?s = length n + (length q + 2)" by simp
  have none: "paren_group (drop j ?s) = None" if "length n < j" "j \<le> length n + (length q + 2)" for j
  proof (rule paren_group_not_lparen)
    from that(1) obtain k where j: "j = Suc (length n + k)"
      using less_imp_Suc_add by blast
    have d: "drop j ?s = drop k (q @ [rparen])"
      unfolding j by simp
    show "drop j ?s = [] \<or> hd (drop j ?s) \<noteq> lparen"
    proof (cases "drop j ?s = []")
      case True
      then show ?thesis by simp
    next
      case False
      then have "hd (drop j ?s) \<in> set (drop j ?s)" by (rule hd_in_set)
      then have "hd (drop j ?s) \<in> set (q @ [rparen])"
        unfolding d by (rule in_set_dropD)
      with q(2) have "hd (drop j ?s) \<noteq> lparen" by auto
      then show ?thesis by simp
    qed
  qed
  then have "\<forall>j. length n < j \<and> j \<le> length n + (length q + 2) \<longrightarrow>
      paren_group (drop j ?s) = None"
    by blast
  then have "item_try (length n + (length q + 2)) ?s = item_try (length n) ?s"
    by (rule item_try_skip)
  moreover have "item_try (length n) ?s = Some (?s, [])"
  proof -
    from n(1) obtain m where m: "length n = Suc m" by (cases n) auto
    have tw: "takeWhile (\<lambda>x. x \<noteq> rparen) (q @ [rparen]) = q"
      using q(3) by (induction q) auto
    have dw: "dropWhile (\<lambda>x. x \<noteq> rparen) (q @ [rparen]) = [rparen]"
      using q(3) by (induction q) auto
    have "paren_group (drop (length n) ?s) = Some (lparen # q @ [rparen], [])"
      by (simp add: tw dw)
    then have pg: "paren_group (drop (Suc m) ?s) = Some (lparen # q @ [rparen], [])"
      by (simp only: m)
    have "take (length n) ?s = n" by simp
    then have tk: "take (Suc m) ?s = n" by (simp only: m)
    have "item_try (Suc m) ?s = Some (take (Suc m) ?s @ lparen # q @ [rparen], [])"
      by (simp only: item_try.simps pg option.case prod.case)
    then show ?thesis by (simp only: tk m)
  qed
  ultimately have "item_try (length ?s) ?s = Some (?s, [])"
    by (simp only: len)
  then have "item_at ?s = Some (?s, [])"
    by (simp only: item_at_def run)
  moreover obtain c cs where cs: "?s = c # cs" using n(1) by (cases n) auto
  ultimately have "item_at (c # cs) = Some (c # cs, [])"
    by (simp only: cs)
  then have "findall (c # cs) = [c # cs]" by simp
  then show ?thesis by (simp only: cs)
qed

text \<open>
  A block that is one item \<open>name(qty)\<close>: no comma and no \<open>(\<close> in the name and in the
  quantity, no \<open>)\<close> in the quantity, no line feed in the name behind its leading
  white space or in the quantity, and the name not empty.
\<close>

lemma parse_nutrients_single_item:
  assumes "n \<noteq> []" "comma \<notin> set n" "lparen \<notin> set n"
      "newline \<notin> set (dropWhile isspace n)"
    and "comma \<notin> set q" "lparen \<notin> set q" "rparen \<notin> set q" "newline \<notin> set q"
  shows "parse_nutrients (n @ lparen # q @ [rparen]) = [(strip n, strip q)]"
proof -
  have "\<not> isspace (last (n @ lparen # q @ [rparen]))" by (simp add: isspace_def)
  with refl have "nutrient_pair (n @ lparen # q @ [rparen]) = (strip n, strip q)"
    using assms(3,4,7,8) by (rule nutrient_pair_form)
  with findall_single_item [OF assms(1,2,3,5,6,7)] show ?thesis
    by (simp add: parse_nutrients_def del: append.simps)
qed

lemma sample_nutrients_code_points:
  "sample_nutrients =
     [67, 101, 108, 107, 111, 118, 233, 32, 84, 117, 107, 121, 40, 57, 57, 46, 55, 103, 41, 44,
      83, 97, 99, 104, 97, 114, 105, 100, 121, 40, 48, 103, 41, 44, 32, 67, 117, 107, 114, 40,
      48, 103, 41, 44, 32, 86, 105, 116, 97, 109, 105, 110, 32, 65, 40, 55, 48, 48, 41, 44, 32,
      66, 237, 108, 107, 111, 118, 105, 110, 121, 40, 48, 103, 41]"
  by (simp add: sample_nutrients_def ascii_def)

lemma parse_sample_nutrients:
  "parse_nutrients sample_nutrients =
     [(ascii ''Celkov'' @ [233] @ ascii '' Tuky'', ascii ''99.7g''),
      (ascii ''Sacharidy'', ascii ''0g''),
      (ascii ''Cukr'', ascii ''0g''),
      (ascii ''Vitamin A'', ascii ''700''),
      (ascii ''B'' @ [237] @ ascii ''lkoviny'', ascii ''0g'')]"
  by (simp add: sample_nutrients_def eval_defs)

text \<open>
  Every item the splitter finds that reads \<open>name ( qty ) rest\<close>, with no \<open>(\<close> in the
  name and no \<open>)\<close> in the quantity, gives the pair of the stripped name and the stripped
  quantity exactly when no line feed stands in the name behind its leading white space
  or in the quantity.
\<close>

lemma parse_nutrients_items_of_form:
  assumes "item \<in> set (findall nutrient_text)" "item = n @ lparen # q @ rparen # rest"
    "lparen \<notin> set n" "rparen \<notin> set q"
  shows "nutrient_pair item \<in> set (parse_nutrients nutrient_text) \<and>
    (nutrient_pair item = (strip n, strip q) \<longleftrightarrow>
       newline \<notin> set (dropWhile isspace n) \<and> newline \<notin> set q)"
proof -
  from findall_items [OF assms(1)] have "last item = rparen" by simp
  then have "\<not> isspace (last item)" by (simp add: isspace_def)
  with assms(2) have "nutrient_pair item = (strip n, strip q) \<longleftrightarrow>
       newline \<notin> set (dropWhile isspace n) \<and> newline \<notin> set q"
    using assms(3,4) by (rule nutrient_pair_form_iff)
  moreover from assms(1) have "nutrient_pair item \<in> set (parse_nutrients nutrient_text)"
    by (simp add: parse_nutrients_def)
  ultimately show ?thesis by simp
qed

text \<open>
  A line feed behind a comma belongs to the next item and is stripped with it:
  \<open>Tuky(1g),\n Cukr(0g)\<close> gives both pairs.
\<close>

lemma parse_nutrients_line_feed_between_items:
  "parse_nutrients (ascii ''Tuky(1g),'' @ [newline] @ ascii '' Cukr(0g)'') =
     [(ascii ''Tuky'', ascii ''1g''), (ascii ''Cukr'', ascii ''0g'')]"
  by (simp add: eval_defs)

text \<open>
  C3. The claim: the sample string splits into its five pairs, in order; the empty
  string gives no pair; and of every item that reads \<open>name(qty)\<close> the name is the
  stripped text before the first \<open>(\<close> and the quantity the stripped text between that
  \<open>(\<close> and the \<open>)\<close> behind it. The first two hold. The third does not hold of the code:
  the block \<open>a\nb(c)\<close> is one item, with the name \<open>a\nb\<close> before its only \<open>(\<close> and the
  quantity \<open>c\<close>, and the splitter returns the whole item as the name and the empty
  quantity. The \<open>.\<close> of the name and quantity pattern does not match a line feed,
  while the character classes of the item pattern do.
\<close>

theorem parse_nutrients_line_feed_item:
  "parse_nutrients sample_nutrients =
     [(ascii ''Celkov'' @ [233] @ ascii '' Tuky'', ascii ''99.7g''),
      (ascii ''Sacharidy'', ascii ''0g''),
      (ascii ''Cukr'', ascii ''0g''),
      (ascii ''Vitamin A'', ascii ''700''),
      (ascii ''B'' @ [237] @ ascii ''lkoviny'', ascii ''0g'')] \<and>
   parse_nutrients [] = [] \<and>
   findall ([97, newline, 98] @ lparen # [99] @ [rparen]) = [[97, newline, 98, lparen, 99, rparen]] \<and>
   lparen \<notin> set [97, newline, 98] \<and> rparen \<notin> set [99] \<and>
   strip [97, newline, 98] = [97, newline, 98] \<and> strip [99] = [99] \<and>
   parse_nutrients ([97, newline, 98] @ lparen # [99] @ [rparen]) =
     [([97, newline, 98, lparen, 99, rparen], [])]"
proof -
  have "findall ([97, newline, 98] @ lparen # [99] @ [rparen]) = [[97, newline, 98, lparen, 99, rparen]]"
    by (simp add: eval_defs)
  moreover have "strip [97, newline, 98] = [97, newline, 98]" "strip [99] = [99]"
    by (simp_all add: eval_defs)
  moreover have "parse_nutrients ([97, newline, 98] @ lparen # [99] @ [rparen]) =
     [([97, newline, 98, lparen, 99, rparen], [])]"
    by (simp add: eval_defs)
  moreover have "parse_nutrients [] = []" by (simp add: parse_nutrients_def)
  ultimately show ?thesis using parse_sample_nutrients by simp
qed

subsection \<open>Fragments without a parenthesised group\<close>

text \<open>The block \<open>abc, def(1)\<close>: the fragment \<open>abc\<close> has no parenthesised group.\<close>

lemma parse_nutrients_fragment:
  "parse_nutrients (ascii ''abc, def(1)'') = [(ascii ''def'', ascii ''1'')]"
  by (simp add: eval_defs)

text \<open>
  C6, as stated, does not hold: in \<open>abc, def(1)\<close> the comma-separated item \<open>abc\<close> has
  no parenthesised group, and the splitter returns the pair of \<open>def(1)\<close> only; the pair
  of \<open>abc\<close> with the empty quantity is not in the result.
\<close>

theorem parse_nutrients_retains_counterexample:
  "(ascii ''abc'', []) \<notin> set (parse_nutrients (ascii ''abc, def(1)''))"
  by (simp add: eval_defs)

text \<open>
  C6, amended. The item pattern finds only items with a parenthesised group: every
  item it finds has a \<open>(\<close> and ends in \<open>)\<close>, and a block without \<open>(\<close> gives no pair at
  all, so a fragment without a group is dropped. Every item found gives one pair; an
  item found that the name and quantity pattern does not match is kept as the pair of
  the stripped item and the empty quantity; the pattern fails to match exactly the
  strings that do not read \<open>name ( qty ) rest\<close> with no \<open>(\<close> in the name, no \<open>)\<close> in
  the quantity and no line feed in either.
\<close>

theorem parse_nutrients_malformed:
  "(\<forall>item. item \<in> set (findall nutrient_text) \<longrightarrow> lparen \<in> set item \<and> last item = rparen) \<and>
   (lparen \<notin> set nutrient_text \<longrightarrow> parse_nutrients nutrient_text = []) \<and>
   length (parse_nutrients nutrient_text) = length (findall nutrient_text) \<and>
   (\<forall>i. i < length (findall nutrient_text) \<and>
        name_qty_match (strip (findall nutrient_text ! i)) = None \<longrightarrow>
        parse_nutrients nutrient_text ! i = (strip (findall nutrient_text ! i), [])) \<and>
   (\<forall>s. name_qty_match s = None \<longleftrightarrow>
        \<not> (\<exists>n q rest. s = n @ lparen # q @ rparen # rest \<and>
             lparen \<notin> set n \<and> newline \<notin> set n \<and> rparen \<notin> set q \<and> newline \<notin> set q))"
proof -
  have "name_qty_match s = None \<longleftrightarrow>
        \<not> (\<exists>n q rest. s = n @ lparen # q @ rparen # rest \<and>
             lparen \<notin> set n \<and> newline \<notin> set n \<and> rparen \<notin> set q \<and> newline \<notin> set q)" for s
  proof (cases "name_qty_match s")
    case None
    then show ?thesis using name_qty_match_first by force
  next
    case (Some a)
    obtain n q where "a = (n, q)" by (cases a)
    with Some show ?thesis using name_qty_match_Some by fastforce
  qed
  moreover
  have "lparen \<in> set item \<and> last item = rparen" if "item \<in> set (findall nutrient_text)" for item
    using findall_items [OF that] by simp
  moreover have "parse_nutrients nutrient_text = []" if "lparen \<notin> set nutrient_text"
    using that by (simp add: parse_nutrients_def findall_no_lparen)
  moreover have "length (parse_nutrients nutrient_text) = length (findall nutrient_text)"
    by (simp add: parse_nutrients_def)
  moreover have "parse_nutrients nutrient_text ! i = (strip (findall nutrient_text ! i), [])"
    if "i < length (findall nutrient_text)"
      "name_qty_match (strip (findall nutrient_text ! i)) = None" for i
    using that by (simp add: parse_nutrients_def nutrient_pair_def)
  ultimately show ?thesis by blast
qed

theorem parse_nutrients_malformed_witness:
  "findall [97, newline, lparen, 98, rparen] = [[97, newline, lparen, 98, rparen]] \<and>
   name_qty_match (strip [97, newline, lparen, 98, rparen]) = None \<and>
   parse_nutrients [97, newline, lparen, 98, rparen] ! 0 = ([97, newline, lparen, 98, rparen], []) \<and>
   lparen \<notin> set (ascii ''abc'') \<and> parse_nutrients (ascii ''abc'') = []"
proof -
  have f: "findall [97, newline, lparen, 98, rparen] = [[97, newline, lparen, 98, rparen]]"
    by (simp add: eval_defs)
  have s: "strip [97, newline, lparen, 98, rparen] = [97, newline, lparen, 98, rparen]"
    by (simp add: eval_defs)
  have m: "name_qty_match [97, newline, lparen, 98, rparen] = None" by simp
  from parse_nutrients_malformed [of "[97, newline, lparen, 98, rparen]"] f s m
  have "parse_nutrients [97, newline, lparen, 98, rparen] ! 0 = ([97, newline, lparen, 98, rparen], [])"
    by simp
  moreover have n: "lparen \<notin> set (ascii ''abc'')" by (simp add: ascii_def)
  moreover from parse_nutrients_malformed [of "ascii ''abc''"] n
  have "parse_nutrients (ascii ''abc'') = []" by blast
  ultimately show ?thesis using f s m by simp
qed

section \<open>The field extractor\<close>

subsection \<open>Containment\<close>

lemma py_in_iff: "py_in sub s \<longleftrightarrow> (\<exists>u v. s = u @ sub @ v)"
proof (induction s)
  case Nil
  show ?case by auto
next
  case (Cons c cs)
  show ?case
  proof
    assume "py_in sub (c # cs)"
    then consider "take (length sub) (c # cs) = sub" | "py_in sub cs" by auto
    then show "\<exists>u v. c # cs = u @ sub @ v"
    proof cases
      case 1
      have "c # cs = [] @ take (length sub) (c # cs) @ drop (length sub) (c # cs)"
        by (simp only: append_Nil append_take_drop_id)
      with 1 show ?thesis by metis
    next
      case 2
      with Cons obtain u v where "cs = u @ sub @ v" by blast
      then have "c # cs = (c # u) @ sub @ v" by simp
      then show ?thesis by blast
    qed
  next
    assume "\<exists>u v. c # cs = u @ sub @ v"
    then obtain u v where uv: "c # cs = u @ sub @ v" by blast
    show "py_in sub (c # cs)"
    proof (cases u)
      case Nil
      with uv have "take (length sub) (c # cs) = sub" by simp
      then show ?thesis by simp
    next
      case (Cons d u')
      with uv have "cs = u' @ sub @ v" by simp
      with Cons.IH have "py_in sub cs" by blast
      then show ?thesis by simp
    qed
  qed
qed



subsection \<open>The first block that counts\<close>





subsection \<open>Taking the first \<open>strong\<close> out of a block\<close>




lemma node_at_Nil: "node_at q [] = None"
proof (cases q)
  case Nil
  then show ?thesis by simp
next
  case (Cons i r)
  then show ?thesis by (cases r) simp_all
qed




text \<open>
  The block read through the document after the call is the block without its first
  \<open>strong\<close>: the text returned is the text of the block as the changed document has it.
\<close>

lemma node_at_remove_at:
  "node_at pp xs = Some p \<Longrightarrow> sp \<noteq> [] \<Longrightarrow>
   node_at pp (remove_at (pp @ sp) xs) = Some (set_children p (remove_at sp (children p)))"
proof (induction pp xs rule: node_at.induct)
  case (1 xs)
  then show ?case by simp
next
  case (2 i xs)
  then obtain j q where sp: "sp = j # q" by (cases sp) auto
  from 2 have "i < length xs" "p = xs ! i" by (simp_all split: if_splits)
  with sp show ?case by simp
next
  case (3 i j q xs)
  then have i: "i < length xs" and below: "node_at (j # q) (children (xs ! i)) = Some p"
    by (simp_all split: if_splits)
  from below obtain n cs where y: "xs ! i = Tag n cs"
    by (cases "xs ! i") (simp_all add: node_at_Nil)
  from "3.IH" [OF i below "3.prems"(2)] y have
    "node_at (j # q) (remove_at ((j # q) @ sp) cs) = Some (set_children p (remove_at sp (children p)))"
    by simp
  with i y show ?case by simp
qed

subsection \<open>Labelled fields\<close>





subsection \<open>The description\<close>




subsection \<open>Only the first \<open>strong\<close> of a block counts\<close>

text \<open>
  C9. Let a block have a first \<open>strong\<close> and any further ones (\<open>later\<close>). If the text
  of the first contains no label, the labelled-field loop passes the block over,
  whatever the later ones contain; if the text of the first contains no marker, the
  description loop returns the block, whatever the later ones contain.
\<close>

theorem first_strong_only:
  "(\<forall>sp strong later pp ps soup.
      find_all STRONG (children p) = (sp, strong) # later \<and>
      \<not> label_matches lower labels (lower (get_text_strip strong)) \<longrightarrow>
      extract_field_loop lower soup labels ((pp, p) # ps) = extract_field_loop lower soup labels ps) \<and>
   (\<forall>sp strong later pp ps.
      find_all STRONG (children p) = (sp, strong) # later \<and>
      \<not> marker_in (lower (get_text_strip strong)) \<longrightarrow>
      extract_description_loop lower ((pp, p) # ps) = get_text_strip p)"
  by (simp add: find_tag_def)

theorem first_strong_only_witness:
  "find_all STRONG (children (Tag P [Tag STRONG [NavigableString (ascii ''Pozor'')],
       NavigableString (ascii '' mleko ''), Tag STRONG [NavigableString (ascii ''Allergen'')]])) =
     ([0], Tag STRONG [NavigableString (ascii ''Pozor'')]) #
     [([2], Tag STRONG [NavigableString (ascii ''Allergen'')])] \<and>
   label_matches example_lower allergen_labels
     (example_lower (get_text_strip (Tag STRONG [NavigableString (ascii ''Allergen'')]))) \<and>
   marker_in (example_lower (get_text_strip (Tag STRONG [NavigableString (ascii ''Allergen'')]))) \<and>
   extract_field example_lower example_document2 allergen_labels = ([], example_document2) \<and>
   extract_description example_lower example_document2 = ascii ''PozormlekoAllergen''"
proof -
  let ?p = "Tag P [Tag STRONG [NavigableString (ascii ''Pozor'')],
       NavigableString (ascii '' mleko ''), Tag STRONG [NavigableString (ascii ''Allergen'')]]"
  let ?s1 = "Tag STRONG [NavigableString (ascii ''Pozor'')]"
  let ?s2 = "Tag STRONG [NavigableString (ascii ''Allergen'')]"
  have strongs: "find_all STRONG (children ?p) = ([0], ?s1) # [([2], ?s2)]"
    by (simp add: eval_defs)
  have blocks: "find_all P example_document2 = [([0], ?p)]"
    by (simp add: eval_defs)
  have first_label: "\<not> label_matches example_lower allergen_labels (example_lower (get_text_strip ?s1))"
    by (simp add: eval_defs)
  have first_marker: "\<not> marker_in (example_lower (get_text_strip ?s1))"
    by (simp add: eval_defs)
  have second_label: "label_matches example_lower allergen_labels (example_lower (get_text_strip ?s2))"
    by (simp add: eval_defs)
  have second_marker: "marker_in (example_lower (get_text_strip ?s2))"
    by (simp add: eval_defs)
  have body: "get_text_strip ?p = ascii ''PozormlekoAllergen''"
    by (simp add: eval_defs)
  have "extract_field_loop example_lower example_document2 allergen_labels (([0], ?p) # []) =
      extract_field_loop example_lower example_document2 allergen_labels []"
    by (rule first_strong_only [where p = ?p and lower = example_lower and labels = allergen_labels,
          THEN conjunct1, THEN spec, THEN spec, THEN spec, THEN spec, THEN spec, THEN spec, THEN mp,
          of "[0]" ?s1 "[([2], ?s2)]"])
      (intro conjI strongs first_label)
  then have f: "extract_field example_lower example_document2 allergen_labels = ([], example_document2)"
    by (simp only: extract_field_def blocks extract_field_loop.simps)
  have "extract_description_loop example_lower (([0], ?p) # []) = get_text_strip ?p"
    by (rule first_strong_only [where p = ?p and lower = example_lower and labels = allergen_labels,
          THEN conjunct2, THEN spec, THEN spec, THEN spec, THEN spec, THEN spec, THEN mp,
          of "[0]" ?s1 "[([2], ?s2)]"])
      (intro conjI strongs first_marker)
  then have d: "extract_description example_lower example_document2 = ascii ''PozormlekoAllergen''"
    by (simp only: extract_description_def blocks body)
  from strongs second_label second_marker f d show ?thesis by (simp only: simp_thms)
qed

section \<open>The record aggregator\<close>

lemma last_translation_snoc:
  "last_translation I k (data @ [r]) =
     (if sku_of r = PyStr I \<and> key_of r = PyStr k then Some (translation_of r)
      else last_translation I k data)"
  by (simp add: last_translation_def)

lemma last_translation_none:
  "\<forall>r\<in>set data. sku_of r \<noteq> PyStr I \<Longrightarrow> last_translation I k data = None"
  by (simp add: last_translation_def filter_empty_conv)

lemma map_of_modify:
  "map_of (modify sku f products) k =
     (if k = sku then map_option f (map_of products k) else map_of products k)"
  by (induction products) (auto simp: modify_def)

lemma keys_modify: "map fst (modify sku f products) = map fst products"
  by (induction products) (auto simp: modify_def)

lemma map_of_append_new:
  "map_of products sku = None \<Longrightarrow>
   map_of (products @ [(sku, v)]) k = (if k = sku then Some v else map_of products k)"
  by (induction products) auto

lemma skipped_record:
  "sku_of r = PyNone \<or> sku_of r = PyStr [] \<Longrightarrow> aggregate_step products r = products"
  by (auto simp: aggregate_step_def sku_of_def)

text \<open>One step, on the keys and on the entry of every key.\<close>

lemma keys_aggregate_step:
  "map fst (aggregate_step products r) =
     (case sku_of r of
        PyNone \<Rightarrow> map fst products
      | PyStr sku \<Rightarrow>
          if sku = [] \<or> sku \<in> set (map fst products) then map fst products
          else map fst products @ [sku])"
proof (cases "sku_of r")
  case PyNone
  then show ?thesis by (simp add: skipped_record)
next
  case (PyStr sku)
  show ?thesis
  proof (cases "sku = []")
    case True
    with PyStr show ?thesis by (simp add: skipped_record)
  next
    case False
    have "map_of products sku = None \<longleftrightarrow> sku \<notin> set (map fst products)"
      by (simp add: map_of_eq_None_iff)
    with PyStr False show ?thesis
      by (simp add: aggregate_step_def sku_of_def Let_def keys_modify)
  qed
qed

lemma map_of_aggregate_step:
  assumes "sku_of r = PyStr sku" "sku \<noteq> []"
  shows "map_of (aggregate_step products r) k =
     (if k = sku
      then Some (let i = (case map_of products sku of
                            None \<Rightarrow> \<lparr>info_title = None, info_body_html = None\<rparr>
                          | Some i \<Rightarrow> i)
                 in if key_of r = PyStr title_key then i\<lparr>info_title := Some (translation_of r)\<rparr>
                    else if key_of r = PyStr body_html_key
                    then i\<lparr>info_body_html := Some (translation_of r)\<rparr>
                    else i)
      else map_of products k)"
proof (cases "map_of products sku")
  case None
  with assms show ?thesis
    by (simp add: aggregate_step_def sku_of_def key_of_def translation_of_def Let_def
        map_of_modify map_of_append_new del: map_of_append)
next
  case (Some i)
  with assms show ?thesis
    by (simp add: aggregate_step_def sku_of_def key_of_def translation_of_def Let_def
        map_of_modify)
qed

lemma aggregate_snoc: "aggregate (data @ [r]) = aggregate_step (aggregate data) r"
  by (simp add: aggregate_def)

lemma distinct_keys_aggregate: "distinct (map fst (aggregate data))"
proof (induction data rule: rev_induct)
  case Nil
  show ?case by (simp add: aggregate_def)
next
  case (snoc r data)
  then show ?case
    by (simp add: aggregate_snoc keys_aggregate_step split: pyval.splits)
qed

lemma keys_aggregate:
  "set (map fst (aggregate data)) = {I. I \<noteq> [] \<and> (\<exists>r\<in>set data. sku_of r = PyStr I)}"
proof (induction data rule: rev_induct)
  case Nil
  show ?case by (simp add: aggregate_def)
next
  case (snoc r data)
  show ?case
  proof (cases "sku_of r")
    case PyNone
    with snoc show ?thesis by (auto simp: aggregate_snoc keys_aggregate_step)
  next
    case (PyStr sku)
    with snoc show ?thesis by (auto simp: aggregate_snoc keys_aggregate_step)
  qed
qed

text \<open>
  The entry of an identifier after the whole input: it is there exactly when the
  identifier is not empty and some record carries it, and it holds the translations of
  the last title record and of the last body record of that identifier.
\<close>

lemma map_of_aggregate:
  "map_of (aggregate data) I =
     (if I \<noteq> [] \<and> (\<exists>r\<in>set data. sku_of r = PyStr I)
      then Some \<lparr>info_title = last_translation I title_key data,
                 info_body_html = last_translation I body_html_key data\<rparr>
      else None)"
proof (induction data rule: rev_induct)
  case Nil
  show ?case by (simp add: aggregate_def)
next
  case (snoc r data)
  show ?case
  proof (cases "\<exists>sku. sku_of r = PyStr sku \<and> sku \<noteq> []")
    case False
    then have skip: "sku_of r = PyNone \<or> sku_of r = PyStr []" by (cases "sku_of r") auto
    then have "aggregate (data @ [r]) = aggregate data"
      by (simp add: aggregate_snoc skipped_record)
    moreover from skip have "I \<noteq> [] \<Longrightarrow> sku_of r \<noteq> PyStr I" by auto
    ultimately show ?thesis using snoc
      by (auto simp: last_translation_snoc)
  next
    case True
    then obtain sku where sku: "sku_of r = PyStr sku" "sku \<noteq> []" by blast
    show ?thesis
    proof (cases "I = sku")
      case False
      with sku snoc show ?thesis
        by (auto simp: aggregate_snoc map_of_aggregate_step [OF sku] last_translation_snoc)
    next
      case True
      with sku snoc show ?thesis
        by (auto simp: aggregate_snoc map_of_aggregate_step [OF sku] last_translation_snoc
            last_translation_none Let_def)
    qed
  qed
qed

lemma one_entry:
  "distinct (map fst ps) \<Longrightarrow> I \<in> set (map fst ps) \<Longrightarrow>
   length (filter (\<lambda>(k, d). k = I) ps) = 1"
proof (induction ps)
  case Nil
  then show ?case by simp
next
  case (Cons a ps)
  obtain k d where a: "a = (k, d)" by (cases a)
  show ?case
  proof (cases "k = I")
    case True
    with Cons.prems(1) a have "I \<notin> set (map fst ps)" by simp
    then have "filter (\<lambda>(k, d). k = I) ps = []"
      by (force simp: filter_empty_conv)
    with True a show ?thesis by simp
  next
    case False
    with Cons a show ?thesis by simp
  qed
qed

lemma foldl_filter_skip:
  "(\<And>s x. \<not> keep x \<Longrightarrow> f s x = s) \<Longrightarrow> foldl f s (filter keep xs) = foldl f s xs"
  by (induction xs arbitrary: s) simp_all

lemma aggregate_skips:
  "aggregate (filter (\<lambda>r. sku_of r \<noteq> PyNone \<and> sku_of r \<noteq> PyStr []) data) = aggregate data"
  unfolding aggregate_def
  by (rule foldl_filter_skip) (simp add: skipped_record)

lemma other_key_keeps:
  assumes "key_of r \<noteq> PyStr title_key" "key_of r \<noteq> PyStr body_html_key"
  shows "(case map_of (aggregate_step products r) k of
            None \<Rightarrow> (None, None) | Some d \<Rightarrow> (info_title d, info_body_html d)) =
         (case map_of products k of
            None \<Rightarrow> (None, None) | Some d \<Rightarrow> (info_title d, info_body_html d))"
proof (cases "\<exists>sku. sku_of r = PyStr sku \<and> sku \<noteq> []")
  case False
  then have "sku_of r = PyNone \<or> sku_of r = PyStr []" by (cases "sku_of r") auto
  then show ?thesis by (simp add: skipped_record)
next
  case True
  then obtain sku where sku: "sku_of r = PyStr sku" "sku \<noteq> []" by blast
  from assms show ?thesis
    by (simp add: map_of_aggregate_step [OF sku] split: option.splits)
qed

text \<open>
  C2. For every input and every non-empty identifier \<open>I\<close> with a title record or a
  body record (key \<open>body_html\<close>), the mapping has exactly one entry for \<open>I\<close>; its title
  is the translation of the last title record of \<open>I\<close> and its markup the translation
  of the last body record of \<open>I\<close> (absent when \<open>I\<close> has no such record). A record whose
  identifier is missing, \<open>None\<close> or empty changes nothing, so the mapping is that of the
  input without such records. A record with another key changes the title and the
  markup of no entry.
\<close>

theorem aggregate_last_write_wins:
  "(I \<noteq> [] \<and>
    (\<exists>r\<in>set data. sku_of r = PyStr I \<and>
       (key_of r = PyStr title_key \<or> key_of r = PyStr body_html_key)) \<longrightarrow>
      length (filter (\<lambda>(k, d). k = I) (aggregate data)) = 1 \<and>
      map_of (aggregate data) I =
        Some \<lparr>info_title = last_translation I title_key data,
              info_body_html = last_translation I body_html_key data\<rparr>) \<and>
   (\<forall>products r. sku_of r = PyNone \<or> sku_of r = PyStr [] \<longrightarrow>
      aggregate_step products r = products) \<and>
   aggregate data = aggregate (filter (\<lambda>r. sku_of r \<noteq> PyNone \<and> sku_of r \<noteq> PyStr []) data) \<and>
   (\<forall>products r k.
      key_of r \<noteq> PyStr title_key \<and> key_of r \<noteq> PyStr body_html_key \<longrightarrow>
      (case map_of (aggregate_step products r) k of
         None \<Rightarrow> (None, None) | Some d \<Rightarrow> (info_title d, info_body_html d)) =
      (case map_of products k of
         None \<Rightarrow> (None, None) | Some d \<Rightarrow> (info_title d, info_body_html d)))"
proof -
  have 1: "length (filter (\<lambda>(k, d). k = I) (aggregate data)) = 1 \<and>
      map_of (aggregate data) I =
        Some \<lparr>info_title = last_translation I title_key data,
              info_body_html = last_translation I body_html_key data\<rparr>"
    if ne: "I \<noteq> []" and ex: "\<exists>r\<in>set data. sku_of r = PyStr I \<and>
       (key_of r = PyStr title_key \<or> key_of r = PyStr body_html_key)"
  proof -
    from ex have some: "\<exists>r\<in>set data. sku_of r = PyStr I" by blast
    with ne have "I \<in> set (map fst (aggregate data))"
      unfolding keys_aggregate by simp
    with distinct_keys_aggregate have "length (filter (\<lambda>(k, d). k = I) (aggregate data)) = 1"
      by (rule one_entry)
    moreover from ne some have "map_of (aggregate data) I =
        Some \<lparr>info_title = last_translation I title_key data,
              info_body_html = last_translation I body_html_key data\<rparr>"
      by (simp add: map_of_aggregate)
    ultimately show ?thesis by simp
  qed
  have 2: "aggregate_step products r = products"
    if "sku_of r = PyNone \<or> sku_of r = PyStr []" for products r
    using that by (rule skipped_record)
  have 3: "aggregate data = aggregate (filter (\<lambda>r. sku_of r \<noteq> PyNone \<and> sku_of r \<noteq> PyStr []) data)"
    by (simp add: aggregate_skips)
  have 4: "(case map_of (aggregate_step products r) k of
         None \<Rightarrow> (None, None) | Some d \<Rightarrow> (info_title d, info_body_html d)) =
      (case map_of products k of
         None \<Rightarrow> (None, None) | Some d \<Rightarrow> (info_title d, info_body_html d))"
    if "key_of r \<noteq> PyStr title_key \<and> key_of r \<noteq> PyStr body_html_key" for products r k
    using that by (simp add: other_key_keeps)
  from 1 2 3 4 show ?thesis by blast
qed

theorem aggregate_last_write_wins_witness:
  "ascii ''A'' \<noteq> [] \<and>
   sku_of (example_data ! 0) = PyStr (ascii ''A'') \<and> key_of (example_data ! 0) = PyStr title_key \<and>
   length (filter (\<lambda>(k, d). k = ascii ''A'') (aggregate example_data)) = 1 \<and>
   map_of (aggregate example_data) (ascii ''A'') =
     Some \<lparr>info_title = Some (PyStr (ascii ''Maslo 2'')),
           info_body_html = Some (PyStr example_markup)\<rparr> \<and>
   map fst (aggregate example_data) = [ascii ''A'', ascii ''B'']"
proof -
  have ne: "ascii ''A'' \<noteq> []" by (simp add: ascii_def)
  have r0: "sku_of (example_data ! 0) = PyStr (ascii ''A'')" "key_of (example_data ! 0) = PyStr title_key"
    by (simp_all add: example_data_def record_defs)
  have "example_data ! 0 \<in> set example_data" by (simp add: example_data_def)
  with r0 have ex: "\<exists>r\<in>set example_data. sku_of r = PyStr (ascii ''A'') \<and>
       (key_of r = PyStr title_key \<or> key_of r = PyStr body_html_key)" by blast
  have t: "last_translation (ascii ''A'') title_key example_data = Some (PyStr (ascii ''Maslo 2''))"
    by (simp add: last_translation_def example_data_def record_defs ascii_def)
  have b: "last_translation (ascii ''A'') body_html_key example_data = Some (PyStr example_markup)"
    by (simp add: last_translation_def example_data_def record_defs ascii_def)
  have keys: "map fst (aggregate example_data) = [ascii ''A'', ascii ''B'']"
    by (simp add: aggregate_def aggregate_step_def modify_def example_data_def record_defs ascii_def)
  from aggregate_last_write_wins [of "ascii ''A''" example_data, THEN conjunct1, THEN mp,
      OF conjI [OF ne ex]]
  have "length (filter (\<lambda>(k, d). k = ascii ''A'') (aggregate example_data)) = 1 \<and>
      map_of (aggregate example_data) (ascii ''A'') =
        Some \<lparr>info_title = Some (PyStr (ascii ''Maslo 2'')),
              info_body_html = Some (PyStr example_markup)\<rparr>"
    unfolding t b .
  with ne r0 keys show ?thesis by (simp only: simp_thms)
qed

section \<open>Products without title and body\<close>

lemma build_rows_for_product_None:
  "build_rows_for_product html_parser lower sku title PyNone = Inl TypeError"
  by (simp add: build_rows_for_product_def then_do_def BeautifulSoup_def or_empty_def)

lemma build_rows_for_product_Inr:
  assumes "build_rows_for_product html_parser lower sku title body_html = Inr rows"
  shows "rows \<noteq> [] \<and> SKU (rows ! 0) = sku"
proof (cases body_html)
  case PyNone
  with assms show ?thesis by (simp add: build_rows_for_product_None)
next
  case (PyStr markup)
  define f where
    "f = \<lparr>f_description = extract_description lower (html_parser markup),
        f_allergen = fst (extract_field lower (html_parser markup) allergen_labels),
        f_ingredients = fst (extract_field lower (html_parser markup) ingredients_labels),
        f_storage = fst (extract_field lower (html_parser markup) storage_labels),
        f_weight = fst (extract_field lower (html_parser markup) weight_labels),
        f_origin = fst (extract_field lower (html_parser markup) origin_labels)\<rparr>"
  define pairs where
    "pairs = parse_nutrients (fst (extract_field lower (html_parser markup) nutrient_labels))"
  from assms PyStr have rows: "rows = make_rows sku title f pairs"
    unfolding f_def pairs_def by (simp add: build_rows_for_product_str)
  have "length rows = max 1 (length pairs)"
    unfolding rows by (rule length_make_rows)
  then have "rows \<noteq> []" by auto
  moreover have "SKU (rows ! 0) = sku"
    unfolding rows by (simp add: make_rows_first product_row_def split: list.splits)
  ultimately show ?thesis by simp
qed

lemma all_csv_rows_loop_Inr:
  "all_csv_rows_loop html_parser lower acc ps = Inr rows \<Longrightarrow>
   set acc \<subseteq> set rows \<and> (\<forall>(sku, info)\<in>set ps. \<exists>row\<in>set rows. SKU row = sku)"
proof (induction ps arbitrary: acc)
  case Nil
  then show ?case by simp
next
  case (Cons a ps)
  obtain sku info where a: "a = (sku, info)" by (cases a)
  from Cons.prems a obtain product_rows where
    built: "build_rows_for_product html_parser lower sku
        (get_default (info_title info) (PyStr []))
        (get_default (info_body_html info) (PyStr [])) = Inr product_rows"
    and rest: "all_csv_rows_loop html_parser lower (acc @ product_rows) ps = Inr rows"
    by (auto simp: then_do_def split: sum.splits)
  from Cons.IH [OF rest] have
    sub: "set (acc @ product_rows) \<subseteq> set rows"
    and others: "\<forall>(sku, info)\<in>set ps. \<exists>row\<in>set rows. SKU row = sku" by simp_all
  from build_rows_for_product_Inr [OF built] have
    "product_rows ! 0 \<in> set product_rows" "SKU (product_rows ! 0) = sku" by simp_all
  with sub have "\<exists>row\<in>set rows. SKU row = sku" by auto
  with sub others a show ?case by auto
qed

lemma aggregate_price_only:
  "aggregate example_price_only = [(ascii ''A'', \<lparr>info_title = None, info_body_html = None\<rparr>)]"
  by (simp add: aggregate_def aggregate_step_def example_price_only_def record_defs ascii_def)

lemma extract_field_no_blocks: "extract_field lower [] labels = ([], [])"
  by (simp add: extract_field_def find_all_def)

lemma extract_description_no_blocks: "extract_description lower [] = []"
  by (simp add: extract_description_def find_all_def)

lemma parse_nutrients_empty: "parse_nutrients [] = []"
  by (simp add: parse_nutrients_def)

text \<open>
  On the empty markup every extraction gives the empty string and the builder one
  row, when the parser makes the empty document of the empty string.
\<close>

lemma build_rows_for_product_empty:
  assumes "html_parser [] = []"
  shows "build_rows_for_product html_parser lower sku title (PyStr []) =
     Inr [\<lparr>SKU = sku, Title = title, Description = [], Allergen = [], Ingredients = [],
           Storage = [], Weight = [], Origin = [], Nutrient = [], Quantity = []\<rparr>]"
  by (simp add: build_rows_for_product_str assms extract_field_no_blocks
      extract_description_no_blocks parse_nutrients_empty make_rows_def product_row_def)

text \<open>
  C5, as stated, does not hold: the identifier \<open>A\<close> occurs only in a record of the key
  \<open>price\<close>; the mapping has an entry for it, and the output has its row.
\<close>

theorem identifier_only_counterexample:
  "map_of (aggregate example_price_only) (ascii ''A'') =
     Some \<lparr>info_title = None, info_body_html = None\<rparr> \<and>
   all_csv_rows example_parser example_lower example_price_only =
     Inr [\<lparr>SKU = ascii ''A'', Title = PyStr [], Description = [], Allergen = [], Ingredients = [],
           Storage = [], Weight = [], Origin = [], Nutrient = [], Quantity = []\<rparr>]"
proof -
  have "example_parser [] = []" by (simp add: example_parser_def)
  then show ?thesis
    by (simp add: all_csv_rows_def aggregate_price_only then_do_def get_default_def
        build_rows_for_product_empty)
qed

text \<open>
  C5, amended. Every non-empty identifier that occurs in a record, whatever the keys
  of its records, has an entry in the mapping, and whenever the run returns rows, one
  of them carries the identifier as SKU. If none of its records has the key \<open>title\<close>
  or \<open>body_html\<close>, the entry has neither title nor markup, and the row builder, called
  as STEP 4 does with the empty title and the empty markup, returns rows, the first
  with the identifier as SKU. The empty identifier never has an entry.
\<close>

theorem identifier_presence_suffices:
  "(I \<noteq> [] \<and> (\<exists>r\<in>set data. sku_of r = PyStr I) \<longrightarrow>
      (\<exists>d. map_of (aggregate data) I = Some d) \<and>
      (\<forall>rows. all_csv_rows html_parser lower data = Inr rows \<longrightarrow> (\<exists>row\<in>set rows. SKU row = I))) \<and>
   (I \<noteq> [] \<and> (\<exists>r\<in>set data. sku_of r = PyStr I) \<and>
    (\<forall>r\<in>set data. sku_of r = PyStr I \<longrightarrow>
       key_of r \<noteq> PyStr title_key \<and> key_of r \<noteq> PyStr body_html_key) \<longrightarrow>
      map_of (aggregate data) I = Some \<lparr>info_title = None, info_body_html = None\<rparr> \<and>
      (\<exists>rows. build_rows_for_product html_parser lower I
                 (get_default None (PyStr [])) (get_default None (PyStr [])) = Inr rows \<and>
               rows \<noteq> [] \<and> SKU (rows ! 0) = I)) \<and>
   map_of (aggregate data) [] = None"
proof -
  have 1: "(\<exists>d. map_of (aggregate data) I = Some d) \<and>
      (\<forall>rows. all_csv_rows html_parser lower data = Inr rows \<longrightarrow> (\<exists>row\<in>set rows. SKU row = I))"
    if "I \<noteq> []" "\<exists>r\<in>set data. sku_of r = PyStr I"
  proof -
    from that obtain d where d: "map_of (aggregate data) I = Some d"
      by (simp add: map_of_aggregate)
    then have mem: "(I, d) \<in> set (aggregate data)" by (rule map_of_SomeD)
    have "\<exists>row\<in>set rows. SKU row = I"
      if "all_csv_rows html_parser lower data = Inr rows" for rows
      using all_csv_rows_loop_Inr [OF that [unfolded all_csv_rows_def]] mem by auto
    with d show ?thesis by blast
  qed
  have 2: "map_of (aggregate data) I = Some \<lparr>info_title = None, info_body_html = None\<rparr> \<and>
      (\<exists>rows. build_rows_for_product html_parser lower I
                 (get_default None (PyStr [])) (get_default None (PyStr [])) = Inr rows \<and>
               rows \<noteq> [] \<and> SKU (rows ! 0) = I)"
    if ne: "I \<noteq> []" and ex: "\<exists>r\<in>set data. sku_of r = PyStr I"
      and keys: "\<forall>r\<in>set data. sku_of r = PyStr I \<longrightarrow>
        key_of r \<noteq> PyStr title_key \<and> key_of r \<noteq> PyStr body_html_key"
  proof -
    from keys have "filter (\<lambda>r. sku_of r = PyStr I \<and> key_of r = PyStr title_key) data = []"
      "filter (\<lambda>r. sku_of r = PyStr I \<and> key_of r = PyStr body_html_key) data = []"
      by (auto simp: filter_empty_conv)
    then have "last_translation I title_key data = None"
      "last_translation I body_html_key data = None"
      by (simp_all add: last_translation_def)
    with ne ex have "map_of (aggregate data) I = Some \<lparr>info_title = None, info_body_html = None\<rparr>"
      by (simp add: map_of_aggregate)
    moreover obtain rows where
      rows: "build_rows_for_product html_parser lower I (PyStr []) (PyStr []) = Inr rows"
      by (simp add: build_rows_for_product_str)
    from build_rows_for_product_Inr [OF rows] rows
    have "\<exists>rows. build_rows_for_product html_parser lower I
                 (get_default None (PyStr [])) (get_default None (PyStr [])) = Inr rows \<and>
               rows \<noteq> [] \<and> SKU (rows ! 0) = I"
      by (simp add: get_default_def)
    ultimately show ?thesis by simp
  qed
  have 3: "map_of (aggregate data) [] = None" by (simp add: map_of_aggregate)
  from 1 2 3 show ?thesis by blast
qed

theorem identifier_presence_suffices_witness:
  "ascii ''A'' \<noteq> [] \<and>
   sku_of (example_price_only ! 0) = PyStr (ascii ''A'') \<and>
   key_of (example_price_only ! 0) = PyStr (ascii ''price'') \<and>
   map_of (aggregate example_price_only) (ascii ''A'') =
     Some \<lparr>info_title = None, info_body_html = None\<rparr> \<and>
   (\<exists>rows. build_rows_for_product example_parser example_lower (ascii ''A'')
              (get_default None (PyStr [])) (get_default None (PyStr [])) = Inr rows \<and>
            rows \<noteq> [] \<and> SKU (rows ! 0) = ascii ''A'') \<and>
   (\<exists>row\<in>set [\<lparr>SKU = ascii ''A'', Title = PyStr [], Description = [], Allergen = [],
                 Ingredients = [], Storage = [], Weight = [], Origin = [], Nutrient = [],
                 Quantity = []\<rparr>]. SKU row = ascii ''A'')"
proof -
  have ne: "ascii ''A'' \<noteq> []" by (simp add: ascii_def)
  have r0: "sku_of (example_price_only ! 0) = PyStr (ascii ''A'')"
    "key_of (example_price_only ! 0) = PyStr (ascii ''price'')"
    by (simp_all add: example_price_only_def record_defs)
  have ex: "\<exists>r\<in>set example_price_only. sku_of r = PyStr (ascii ''A'')"
    by (simp add: example_price_only_def record_defs)
  have keys: "\<forall>r\<in>set example_price_only. sku_of r = PyStr (ascii ''A'') \<longrightarrow>
       key_of r \<noteq> PyStr title_key \<and> key_of r \<noteq> PyStr body_html_key"
    by (simp add: example_price_only_def record_defs ascii_def)
  have run: "all_csv_rows example_parser example_lower example_price_only =
     Inr [\<lparr>SKU = ascii ''A'', Title = PyStr [], Description = [], Allergen = [], Ingredients = [],
           Storage = [], Weight = [], Origin = [], Nutrient = [], Quantity = []\<rparr>]"
    by (simp add: all_csv_rows_def aggregate_price_only then_do_def get_default_def
        build_rows_for_product_empty example_parser_def)
  note T = identifier_presence_suffices [of "ascii ''A''" example_price_only example_parser example_lower]
  from T [THEN conjunct2, THEN conjunct1, THEN mp, OF conjI [OF ne conjI [OF ex keys]]]
  have a: "map_of (aggregate example_price_only) (ascii ''A'') =
       Some \<lparr>info_title = None, info_body_html = None\<rparr> \<and>
     (\<exists>rows. build_rows_for_product example_parser example_lower (ascii ''A'')
              (get_default None (PyStr [])) (get_default None (PyStr [])) = Inr rows \<and>
            rows \<noteq> [] \<and> SKU (rows ! 0) = ascii ''A'')" .
  from T [THEN conjunct1, THEN mp, OF conjI [OF ne ex], THEN conjunct2, THEN spec, THEN mp, OF run]
  have b: "\<exists>row\<in>set [\<lparr>SKU = ascii ''A'', Title = PyStr [], Description = [], Allergen = [],
                 Ingredients = [], Storage = [], Weight = [], Origin = [], Nutrient = [],
                 Quantity = []\<rparr>]. SKU row = ascii ''A''" .
  from ne r0 a b show ?thesis by (simp only: simp_thms)
qed

section \<open>Markup that is \<open>None\<close>\<close>

text \<open>
  C8. On the empty markup string the claim holds (\<open>build_rows_for_product_empty\<close>). On
  the markup \<open>None\<close> the first \<open>BeautifulSoup\<close> call is guarded by \<open>or ""\<close> and the six
  that follow are not: the second raises \<open>TypeError\<close>, and the builder returns no row.
  JSON \<open>null\<close> as the translation of a body record brings \<open>None\<close> there, and the whole
  run ends with the exception.
\<close>

theorem build_rows_for_product_none_raises:
  "build_rows_for_product html_parser lower sku title PyNone = Inl TypeError \<and>
   BeautifulSoup html_parser (or_empty PyNone) = Inr (html_parser []) \<and>
   all_csv_rows html_parser lower example_null_body = Inl TypeError"
  by (simp add: build_rows_for_product_None BeautifulSoup_def or_empty_def all_csv_rows_def
      aggregate_def aggregate_step_def example_null_body_def record_defs modify_def
      then_do_def ascii_def)

section \<open>Each field from a parse of its own\<close>

lemma py_in_refl: "py_in s s"
  by (simp add: py_in_iff) (metis append_Nil append_Nil2)

lemma extract_field_changes_document:
  "extract_field lower example_block [[120]] = ([121], [Tag P [NavigableString [121]]])"
  by (simp add: extract_field_def find_all_def find_tag_def example_block_def get_text_strip_def
      strip_def isspace_def label_matches_def py_in_refl)

lemma extract_field_on_changed_document:
  "extract_field lower (snd (extract_field lower example_block [[120]])) [[120]] =
     ([], [Tag P [NavigableString [121]]])"
  by (simp add: extract_field_changes_document)
    (simp add: extract_field_def find_all_def find_tag_def)

text \<open>
  C10. \<open>extract_field\<close> changes the document it is given: the same call on the
  document it leaves gives another text. In \<open>build_rows_for_product\<close> each field is
  the result of its extraction on the document of a parse of its own of the markup
  string, so each is the value of a function of the markup (and \<open>lower\<close> and the
  parser) and its own labels only; no extraction sees the document another has changed.
\<close>

theorem fields_from_own_parse:
  "build_rows_for_product html_parser lower sku title (PyStr markup) =
     Inr (make_rows sku title
       \<lparr>f_description = extract_description lower (html_parser markup),
        f_allergen = fst (extract_field lower (html_parser markup) allergen_labels),
        f_ingredients = fst (extract_field lower (html_parser markup) ingredients_labels),
        f_storage = fst (extract_field lower (html_parser markup) storage_labels),
        f_weight = fst (extract_field lower (html_parser markup) weight_labels),
        f_origin = fst (extract_field lower (html_parser markup) origin_labels)\<rparr>
       (parse_nutrients (fst (extract_field lower (html_parser markup) nutrient_labels)))) \<and>
   snd (extract_field lower example_block [[120]]) \<noteq> example_block \<and>
   fst (extract_field lower (snd (extract_field lower example_block [[120]])) [[120]]) \<noteq>
     fst (extract_field lower example_block [[120]])"
proof -
  have a: "snd (extract_field lower example_block [[120]]) \<noteq> example_block"
    by (simp only: extract_field_changes_document) (simp add: example_block_def)
  have b: "fst (extract_field lower (snd (extract_field lower example_block [[120]])) [[120]]) \<noteq>
      fst (extract_field lower example_block [[120]])"
    by (simp only: extract_field_on_changed_document) (simp add: extract_field_changes_document)
  from a b show ?thesis by (simp only: build_rows_for_product_str simp_thms)
qed

end
